theory Spec2Isabelle
  imports Main "HOL-Library.AList"
begin

section \<open>CDP commands, errors and BiDi exceptions\<close>

text \<open>
  The mapper talks to the browser through \<^verbatim>\<open>CdpClient.sendCommand(method, params)\<close>,
  which either returns a result or throws \<^verbatim>\<open>{code, message}\<close>. Only the commands the
  modelled functions send are listed, each with the parameters the source passes.
\<close>

datatype request_stage = Request | Response

datatype cdp_command =
    RuntimeEnable
  | PageEnable
  | PageSetLifecycleEventsEnabled bool
  | SecuritySetIgnoreCertificateErrors bool
  | NetworkEnable
  | NetworkDisable
  | FetchEnable "(string \<times> request_stage) list" bool
  | FetchDisable
  | FetchContinueWithAuth "string option" string
  | TargetSetAutoAttach bool bool bool
  | RuntimeRunIfWaitingForDebugger

datatype cdp_error = CdpError int string

datatype bidi_exception =
    NoSuchInterceptException string
  | InvalidArgumentException string
  | NoSuchFrameException string
  | CdpException cdp_error

text \<open>
  \<^verbatim>\<open>Promise.all\<close> over an array of promises: it fulfils when every element has
  fulfilled, and rejects with the reason of the element that rejects first in time.
  The environment gives every element the time its promise settles and the outcome
  (\<open>None\<close>: fulfilled, \<open>Some e\<close>: rejected with \<open>e\<close>). The settlements are seen in
  the order of their times, for equal times in the order of the array; the promise
  settles at the first rejection, or when every element has fulfilled.
\<close>

definition in_settle_order :: "('a \<Rightarrow> nat \<times> 'e option) \<Rightarrow> 'a list \<Rightarrow> ('a \<times> 'e option) list" where
  "in_settle_order env xs = map (\<lambda>x. (x, snd (env x))) (sort_key (\<lambda>x. fst (env x)) xs)"

text \<open>
  The settlements seen until \<^verbatim>\<open>Promise.all\<close> settles, and what it settles with.
\<close>

fun settled_until_rejection ::
  "('a \<times> 'e option) list \<Rightarrow> ('a \<times> 'e option) list \<times> 'e option" where
  "settled_until_rejection [] = ([], None)"
| "settled_until_rejection ((x, None) # ps) =
     (let (seen, r) = settled_until_rejection ps in ((x, None) # seen, r))"
| "settled_until_rejection ((x, Some e) # ps) = ([(x, Some e)], Some e)"

definition promise_all :: "('a \<Rightarrow> nat \<times> 'e option) \<Rightarrow> 'a list \<Rightarrow> 'e option" where
  "promise_all env xs = snd (settled_until_rejection (in_settle_order env xs))"

section \<open>NetworkStorage\<close>

subsection \<open>Data\<close>

datatype intercept_phase = BeforeRequestSent | ResponseStarted | AuthRequired

text \<open>
  Modelled from the spec: \<^verbatim>\<open>Network.UrlPattern\<close> is declared in the protocol types, which
  are not among the sources. It has the two forms \<^verbatim>\<open>{type:"string", pattern}\<close> and
  \<^verbatim>\<open>{type:"pattern", protocol?, hostname?, port?, pathname?, search?}\<close>.
\<close>

datatype url_pattern =
    UrlPatternString string
  | UrlPatternPattern "string option" "string option" "string option" "string option"
      "string option"

record network_interception =
  urlPatterns :: "url_pattern list"
  phases :: "intercept_phase list"

record stages =
  request :: bool
  response :: bool
  auth :: bool

definition no_stages :: stages where
  "no_stages = \<lparr>request = False, response = False, auth = False\<rparr>"

text \<open>
  Modelled from the spec: the class \<^verbatim>\<open>NetworkRequest\<close> is not among the sources. The
  storage reads \<^verbatim>\<open>id\<close>, \<^verbatim>\<open>redirectCount\<close> (both fixed by the constructor),
  \<^verbatim>\<open>fetchId\<close>, \<^verbatim>\<open>url\<close>, \<^verbatim>\<open>cdpClient.sessionId\<close> and \<^verbatim>\<open>isRedirecting()\<close>, and
  calls the methods listed in \<open>request_call\<close>. A method call is recorded in the
  object's call log, in the order the storage makes the calls; BiDi events of a
  request are only ever emitted from inside these methods.
\<close>

datatype request_call =
    OnRequestWillBeSentEvent string
  | OnAuthRequired string
  | HandleRedirect string
  | Dispose

record network_request =
  req_id :: string
  redirectCount :: nat
  fetchId :: "string option"
  url :: "string option"
  sessionId :: "string option"
  isRedirecting :: bool
  calls :: "request_call list"

definition call :: "request_call \<Rightarrow> network_request \<Rightarrow> network_request" where
  "call c r = r\<lparr>calls := calls r @ [c]\<rparr>"

text \<open>
  A \<^verbatim>\<open>CdpTarget\<close>, as the storages and the processor refer to it: its target id and
  the session id of its CDP client (\<^verbatim>\<open>cdpClient.sessionId\<close>, which may be undefined).
  The JavaScript \<^verbatim>\<open>Map\<close>s are association lists in insertion order: \<^verbatim>\<open>set\<close> is
  \<^const>\<open>AList.update\<close> (replace in place, or append), \<^verbatim>\<open>delete\<close> is
  \<^const>\<open>AList.delete\<close>, \<^verbatim>\<open>get\<close> is \<^const>\<open>map_of\<close>. The \<^verbatim>\<open>Set\<close> of targets is
  a list in insertion order.
\<close>

record target_handle =
  target_id :: string
  cdpSessionId :: "string option"

record network_storage =
  targets :: "target_handle list"
  requests :: "(string \<times> network_request) list"
  intercepts :: "(string \<times> network_interception) list"
  interceptionStages :: stages

definition empty_storage :: network_storage where
  "empty_storage =
     \<lparr>targets = [], requests = [], intercepts = [], interceptionStages = no_stages\<rparr>"

subsection \<open>requestBlockedBy\<close>

text \<open>
  The inner loop over \<^verbatim>\<open>intercept.urlPatterns\<close>, which stops at the first pattern that
  \<^verbatim>\<open>matchUrlPattern\<close> accepts. \<^verbatim>\<open>matchUrlPattern\<close> (NetworkUtils) is not among the
  sources and is a parameter.
\<close>

fun somePatternMatches :: "(url_pattern \<Rightarrow> string \<Rightarrow> bool) \<Rightarrow> url_pattern list \<Rightarrow> string \<Rightarrow> bool" where
  "somePatternMatches matchUrlPattern [] u = False"
| "somePatternMatches matchUrlPattern (p # ps) u =
     (if matchUrlPattern p u then True else somePatternMatches matchUrlPattern ps u)"

text \<open>\<^verbatim>\<open>Set.prototype.add\<close>: a set in insertion order.\<close>

definition set_add :: "'a \<Rightarrow> 'a list \<Rightarrow> 'a list" where
  "set_add x xs = (if x \<in> set xs then xs else xs @ [x])"

fun blockedByLoop ::
  "(url_pattern \<Rightarrow> string \<Rightarrow> bool) \<Rightarrow> string \<Rightarrow> intercept_phase \<Rightarrow>
   (string \<times> network_interception) list \<Rightarrow> string list \<Rightarrow> string list" where
  "blockedByLoop matchUrlPattern u phase [] acc = acc"
| "blockedByLoop matchUrlPattern u phase ((interceptId, intercept) # rest) acc =
     (if phase \<notin> set (phases intercept) then blockedByLoop matchUrlPattern u phase rest acc
      else if urlPatterns intercept = []
        then blockedByLoop matchUrlPattern u phase rest (set_add interceptId acc)
      else if somePatternMatches matchUrlPattern (urlPatterns intercept) u
        then blockedByLoop matchUrlPattern u phase rest (set_add interceptId acc)
      else blockedByLoop matchUrlPattern u phase rest acc)"

definition requestBlockedBy ::
  "(url_pattern \<Rightarrow> string \<Rightarrow> bool) \<Rightarrow> network_storage \<Rightarrow> network_request \<Rightarrow>
   intercept_phase option \<Rightarrow> string list" where
  "requestBlockedBy matchUrlPattern s req phase =
     (case (url req, phase) of
        (Some u, Some ph) \<Rightarrow> blockedByLoop matchUrlPattern u ph (intercepts s) []
      | _ \<Rightarrow> [])"

subsection \<open>The request map\<close>

definition getRequestById :: "network_storage \<Rightarrow> string \<Rightarrow> network_request option" where
  "getRequestById s i = map_of (requests s) i"

text \<open>The first request, in insertion order, whose \<^verbatim>\<open>fetchId\<close> is the given one.\<close>

definition getRequestByFetchId :: "network_storage \<Rightarrow> string \<Rightarrow> network_request option" where
  "getRequestByFetchId s f = find (\<lambda>r. fetchId r = Some f) (map snd (requests s))"

definition addRequest :: "network_request \<Rightarrow> network_storage \<Rightarrow> network_storage" where
  "addRequest r s = s\<lparr>requests := AList.update (req_id r) r (requests s)\<rparr>"

text \<open>
  \<^verbatim>\<open>deleteRequest\<close> disposes the request stored under the id and deletes the entry.
  The second component lists the objects that left the map, as \<^verbatim>\<open>dispose()\<close> left
  them.
\<close>

definition deleteRequest ::
  "string \<Rightarrow> network_storage \<Rightarrow> network_storage \<times> network_request list" where
  "deleteRequest i s =
     (case map_of (requests s) i of
        Some r \<Rightarrow> (s\<lparr>requests := AList.delete i (requests s)\<rparr>, [call Dispose r])
      | None \<Rightarrow> (s, []))"

text \<open>
  Modelled from the spec: the constructor \<^verbatim>\<open>new NetworkRequest(id, eventManager,
  networkStorage, cdpTarget, redirectCount)\<close> is not among the sources. The new request
  has the given id, the given redirect count (0 when the argument is omitted), the CDP
  client of the target, no fetch id and no url yet, and no method called on it.
\<close>

definition new_NetworkRequest ::
  "string \<Rightarrow> target_handle \<Rightarrow> nat option \<Rightarrow> network_request" where
  "new_NetworkRequest i cdpTarget count =
     \<lparr>req_id = i,
      redirectCount = (case count of None \<Rightarrow> 0 | Some n \<Rightarrow> n),
      fetchId = None, url = None, sessionId = cdpSessionId cdpTarget,
      isRedirecting = False, calls = []\<rparr>"

text \<open>
  \<^verbatim>\<open>#getOrCreateNetworkRequest\<close> returns the request stored under the id, creating
  and adding it first when there is none. The model returns the storage; the request is
  the one under the id.
\<close>

definition getOrCreateNetworkRequest ::
  "string \<Rightarrow> target_handle \<Rightarrow> nat option \<Rightarrow> network_storage \<Rightarrow> network_storage" where
  "getOrCreateNetworkRequest i cdpTarget count s =
     (case getRequestById s i of
        Some r \<Rightarrow> s
      | None \<Rightarrow> addRequest (new_NetworkRequest i cdpTarget count) s)"

text \<open>A method call on the request object stored under an id.\<close>

definition call_request :: "string \<Rightarrow> request_call \<Rightarrow> network_storage \<Rightarrow> network_storage" where
  "call_request i c s =
     (case map_of (requests s) i of
        Some r \<Rightarrow> s\<lparr>requests := AList.update i (call c r) (requests s)\<rparr>
      | None \<Rightarrow> s)"

subsection \<open>The listeners of onCdpTargetCreated\<close>

text \<open>
  The listener of \<^verbatim>\<open>Network.requestWillBeSent\<close>. The event is its \<^verbatim>\<open>requestId\<close> and
  the rest of its parameters. The result is the storage and the request objects that
  left the map.
\<close>

definition onRequestWillBeSent ::
  "target_handle \<Rightarrow> string \<Rightarrow> string \<Rightarrow> network_storage \<Rightarrow>
   network_storage \<times> network_request list" where
  "onRequestWillBeSent cdpTarget requestId params s =
     (case getRequestById s requestId of
        Some req \<Rightarrow>
          if isRedirecting req then
            (let s1 = call_request requestId (HandleRedirect params) s;
                 (s2, gone) = deleteRequest requestId s1;
                 s3 = getOrCreateNetworkRequest requestId cdpTarget
                        (Some (redirectCount req + 1)) s2
             in (call_request requestId (OnRequestWillBeSentEvent params) s3, gone))
          else (call_request requestId (OnRequestWillBeSentEvent params) s, [])
      | None \<Rightarrow>
          (call_request requestId (OnRequestWillBeSentEvent params)
             (getOrCreateNetworkRequest requestId cdpTarget None s), []))"

text \<open>
  \<^verbatim>\<open>#handleAuthInterception\<close>, the listener of \<^verbatim>\<open>Fetch.authRequired\<close>. The event is
  its \<^verbatim>\<open>requestId\<close> (looked up as \<^verbatim>\<open>event.requestId ?? ''\<close>) and the rest of its
  parameters. The result is the storage and the CDP commands sent, each with the
  target whose client sends it. The promise of the command is not awaited and its
  rejection is swallowed.
\<close>

fun call_first_with_fetchId ::
  "string \<Rightarrow> request_call \<Rightarrow> (string \<times> network_request) list \<Rightarrow> (string \<times> network_request) list" where
  "call_first_with_fetchId f c [] = []"
| "call_first_with_fetchId f c ((k, r) # rest) =
     (if fetchId r = Some f then (k, call c r) # rest
      else (k, r) # call_first_with_fetchId f c rest)"

definition handleAuthInterception ::
  "target_handle \<Rightarrow> string option \<Rightarrow> string \<Rightarrow> network_storage \<Rightarrow>
   network_storage \<times> (target_handle \<times> cdp_command) list" where
  "handleAuthInterception cdpTarget requestId params s =
     (let f = (case requestId of None \<Rightarrow> '''' | Some i \<Rightarrow> i) in
      case getRequestByFetchId s f of
        None \<Rightarrow> (s, [(cdpTarget, FetchContinueWithAuth requestId ''Default'')])
      | Some req \<Rightarrow>
          (s\<lparr>requests := call_first_with_fetchId f (OnAuthRequired params) (requests s)\<rparr>, []))"

subsection \<open>disposeRequestMap\<close>

text \<open>
  The requests of the session are collected first; each is then disposed and the entry
  under its id deleted. The second component lists the disposed objects.
\<close>

definition disposeRequestMap ::
  "string \<Rightarrow> network_storage \<Rightarrow> network_storage \<times> network_request list" where
  "disposeRequestMap sid s =
     (let rs = filter (\<lambda>r. sessionId r = Some sid) (map snd (requests s))
      in (fold (\<lambda>r st. st\<lparr>requests := AList.delete (req_id r) (requests st)\<rparr>) rs s,
          map (call Dispose) rs))"

text \<open>
  Every entry of the request map is made by \<^verbatim>\<open>addRequest\<close>, under the id of the
  request, and a \<^verbatim>\<open>Map\<close> holds a key once.
\<close>

definition keyed_by_id :: "(string \<times> network_request) list \<Rightarrow> bool" where
  "keyed_by_id rs = (distinct (map fst rs) \<and> list_all (\<lambda>(k, r). req_id r = k) rs)"

subsection \<open>The intercept registry\<close>

text \<open>
  The methods \<^verbatim>\<open>enableFetchIfNeeded\<close> and \<^verbatim>\<open>disableFetchIfNeeded\<close> of the targets
  are not among the sources: the environment gives, for a target and a call, the time
  the returned promise settles and its outcome.
\<close>

datatype target_call =
    EnableFetchIfNeeded "(string \<times> request_stage) list" bool
  | DisableFetchIfNeeded

type_synonym target_env = "target_handle \<Rightarrow> target_call \<Rightarrow> nat \<times> cdp_error option"

definition or_phases :: "network_interception \<Rightarrow> stages \<Rightarrow> stages" where
  "or_phases intercept st =
     \<lparr>request = (request st \<or> BeforeRequestSent \<in> set (phases intercept)),
      response = (response st \<or> ResponseStarted \<in> set (phases intercept)),
      auth = (auth st \<or> AuthRequired \<in> set (phases intercept))\<rparr>"

definition fetch_patterns :: "stages \<Rightarrow> (string \<times> request_stage) list" where
  "fetch_patterns st =
     (if request st \<or> auth st then [(''*'', Request)] else []) @
     (if response st then [(''*'', Response)] else [])"

text \<open>
  \<^verbatim>\<open>toggleInterception\<close>: what the awaited \<^verbatim>\<open>Promise.all\<close> rejects with (\<open>None\<close>
  when it fulfils or nothing is awaited), the storage, and the calls made on the targets.
\<close>

definition toggleInterception ::
  "target_env \<Rightarrow> network_storage \<Rightarrow>
   cdp_error option \<times> network_storage \<times> (target_handle \<times> target_call) list" where
  "toggleInterception env s =
     (if intercepts s \<noteq> [] then
        (let st = fold or_phases (map snd (intercepts s)) no_stages in
         if request (interceptionStages s) = request st \<and>
            response (interceptionStages s) = response st \<and>
            auth (interceptionStages s) = auth st
         then (None, s, [])
         else
           (let cs = map (\<lambda>t. (t, EnableFetchIfNeeded (fetch_patterns st) (auth st)))
                       (targets s)
            in (promise_all (\<lambda>(t, c). env t c) cs,
                s\<lparr>interceptionStages := st\<rparr>, cs)))
      else
        (let cs = map (\<lambda>t. (t, DisableFetchIfNeeded)) (targets s)
         in (promise_all (\<lambda>(t, c). env t c) cs,
             s\<lparr>interceptionStages := no_stages\<rparr>, cs)))"

text \<open>
  \<^verbatim>\<open>addIntercept\<close>; the id that \<^verbatim>\<open>uuidv4()\<close> generates is a parameter. The entry is
  set before the synchronisation is awaited; a rejection of the synchronisation
  rejects the call. In \<^verbatim>\<open>addIntercept\<close>, \<^verbatim>\<open>removeIntercept\<close> and
  \<^verbatim>\<open>toggleInterception\<close> every change of the storage is made before the first
  \<^verbatim>\<open>await\<close>, so a call changes the storage in one step, also when calls overlap.
\<close>

definition addIntercept ::
  "string \<Rightarrow> network_interception \<Rightarrow> target_env \<Rightarrow> network_storage \<Rightarrow>
   (bidi_exception + string) \<times> network_storage \<times> (target_handle \<times> target_call) list" where
  "addIntercept interceptId v env s =
     (let (r, s', cs) =
            toggleInterception env (s\<lparr>intercepts := AList.update interceptId v (intercepts s)\<rparr>)
      in (case r of Some e \<Rightarrow> Inl (CdpException e) | None \<Rightarrow> Inr interceptId, s', cs))"

definition no_such_intercept :: "string \<Rightarrow> bidi_exception" where
  "no_such_intercept intercept =
     NoSuchInterceptException (''Intercept '' @ [CHR 0x27] @ intercept @ [CHR 0x27] @ '' does not exist.'')"

definition removeIntercept ::
  "string \<Rightarrow> target_env \<Rightarrow> network_storage \<Rightarrow>
   (bidi_exception + unit) \<times> network_storage \<times> (target_handle \<times> target_call) list" where
  "removeIntercept intercept env s =
     (if map_of (intercepts s) intercept = None then (Inl (no_such_intercept intercept), s, [])
      else
        (let (r, s', cs) =
               toggleInterception env (s\<lparr>intercepts := AList.delete intercept (intercepts s)\<rparr>)
         in (case r of Some e \<Rightarrow> Inl (CdpException e) | None \<Rightarrow> Inr (), s', cs)))"

text \<open>A sequence of calls on the registry, each with the environment it runs in.\<close>

datatype intercept_op =
    AddIntercept string network_interception
  | RemoveIntercept string

fun apply_intercept_op :: "target_env \<times> intercept_op \<Rightarrow> network_storage \<Rightarrow> network_storage" where
  "apply_intercept_op (env, AddIntercept i v) s = fst (snd (addIntercept i v env s))"
| "apply_intercept_op (env, RemoveIntercept i) s = fst (snd (removeIntercept i env s))"

definition run_intercept_ops ::
  "(target_env \<times> intercept_op) list \<Rightarrow> network_storage \<Rightarrow> network_storage" where
  "run_intercept_ops ops s = fold apply_intercept_op ops s"

fun generates :: "string \<Rightarrow> target_env \<times> intercept_op \<Rightarrow> bool" where
  "generates i (env, AddIntercept j v) = (j = i)"
| "generates i (env, RemoveIntercept j) = False"

fun mentions :: "string \<Rightarrow> target_env \<times> intercept_op \<Rightarrow> bool" where
  "mentions i (env, AddIntercept j v) = (j = i)"
| "mentions i (env, RemoveIntercept j) = (j = i)"

section \<open>BrowsingContextProcessor\<close>

subsection \<open>Browsing contexts\<close>

text \<open>
  Modelled from the spec: \<^verbatim>\<open>BrowsingContextImpl\<close> and \<^verbatim>\<open>BrowsingContextStorage\<close> are not
  among the sources. A browsing context has an id, a nullable parent id, a user-context
  id and its owning \<^verbatim>\<open>CdpTarget\<close>; it is top-level when it has no parent. The storage
  is a map from context ids: \<^verbatim>\<open>findContext\<close> is nullable, \<^verbatim>\<open>getContext\<close> fails with
  no such frame on an unknown id, \<^verbatim>\<open>BrowsingContextImpl.create\<close> makes a context and
  puts it into the storage, and \<^verbatim>\<open>updateCdpTarget\<close> replaces the target of a context
  and nothing else.
\<close>

record browsing_context =
  ctx_id :: string
  parentId :: "string option"
  userContext :: string
  cdpTarget :: target_handle

type_synonym browsing_context_storage = "(string \<times> browsing_context) list"

definition findContext :: "browsing_context_storage \<Rightarrow> string \<Rightarrow> browsing_context option" where
  "findContext contexts i = map_of contexts i"

definition getContext ::
  "browsing_context_storage \<Rightarrow> string \<Rightarrow> bidi_exception + browsing_context" where
  "getContext contexts i =
     (case findContext contexts i of
        None \<Rightarrow> Inl (NoSuchFrameException i)
      | Some c \<Rightarrow> Inr c)"

definition isTopLevelContext :: "browsing_context \<Rightarrow> bool" where
  "isTopLevelContext c = (parentId c = None)"

definition BrowsingContextImpl_create ::
  "target_handle \<Rightarrow> string \<Rightarrow> string option \<Rightarrow> string \<Rightarrow> browsing_context_storage \<Rightarrow>
   browsing_context_storage" where
  "BrowsingContextImpl_create target i parent user contexts =
     AList.update i \<lparr>ctx_id = i, parentId = parent, userContext = user, cdpTarget = target\<rparr>
       contexts"

definition updateCdpTarget :: "target_handle \<Rightarrow> browsing_context \<Rightarrow> browsing_context" where
  "updateCdpTarget target c = c\<lparr>cdpTarget := target\<rparr>"

subsection \<open>Target.attachedToTarget\<close>

record target_info =
  targetId :: string
  target_type :: string
  browserContextId :: "string option"

record processor =
  selfTargetId :: string
  defaultUserContextId :: string

text \<open>
  What the handler does besides changing the context storage: \<^verbatim>\<open>#createCdpTarget\<close>
  (listeners, \<^verbatim>\<open>CdpTarget.create\<close>, the storages' \<^verbatim>\<open>onCdpTargetCreated\<close>),
  \<^verbatim>\<open>#handleWorkerTarget\<close> with the BiDi realm type and the owner realm, and the
  release of a target that is not supported (\<^verbatim>\<open>Runtime.runIfWaitingForDebugger\<close> on
  the target's session, then \<^verbatim>\<open>Target.detachFromTarget\<close> on the parent session).
\<close>

datatype processor_effect =
    CreateCdpTarget target_handle
  | HandleWorkerTarget string target_handle "string option"
  | ReleaseAndDetach string

definition cdpToBidiTargetTypes :: "string \<Rightarrow> string" where
  "cdpToBidiTargetTypes ty =
     (if ty = ''service_worker'' then ''service-worker''
      else if ty = ''shared_worker'' then ''shared-worker''
      else ''dedicated-worker'')"

text \<open>
  The user context of a new top-level context:
  \<^verbatim>\<open>browserContextId && browserContextId !== defaultUserContextId ? browserContextId : 'default'\<close>.
  An undefined and an empty string are both falsy.
\<close>

definition userContext_of :: "processor \<Rightarrow> target_info \<Rightarrow> string" where
  "userContext_of p targetInfo =
     (case browserContextId targetInfo of
        None \<Rightarrow> ''default''
      | Some b \<Rightarrow> if b \<noteq> '''' \<and> b \<noteq> defaultUserContextId p then b else ''default'')"

text \<open>
  \<^verbatim>\<open>#handleAttachedToTargetEvent\<close> of modules/context/BrowsingContextProcessor.ts. The
  realm that \<^verbatim>\<open>realmStorage.findRealm\<close> finds for the session of the parent client is
  a parameter (the realm storage is not among the sources). The handler of the older
  domains/context/browsingContextProcessor.ts treats a page or an iframe in the same
  way, but its contexts have no user context, and it releases every other target.
\<close>

definition handleAttachedToTargetEvent ::
  "processor \<Rightarrow> string option \<Rightarrow> string \<Rightarrow> target_info \<Rightarrow> browsing_context_storage \<Rightarrow>
   browsing_context_storage \<times> processor_effect list" where
  "handleAttachedToTargetEvent p parentRealm session targetInfo contexts =
     (let target = \<lparr>target_id = targetId targetInfo, cdpSessionId = Some session\<rparr>;
          release = (contexts, [ReleaseAndDetach session])
      in
      if target_type targetInfo = ''page'' \<or> target_type targetInfo = ''iframe'' then
        (if targetId targetInfo = selfTargetId p then release
         else
           (case findContext contexts (targetId targetInfo) of
              Some maybeContext \<Rightarrow>
                (AList.update (targetId targetInfo) (updateCdpTarget target maybeContext) contexts,
                 [CreateCdpTarget target])
            | None \<Rightarrow>
                (BrowsingContextImpl_create target (targetId targetInfo) None
                   (userContext_of p targetInfo) contexts,
                 [CreateCdpTarget target])))
      else if target_type targetInfo = ''service_worker'' \<or> target_type targetInfo = ''worker'' then
        (case parentRealm of
           None \<Rightarrow> release
         | Some realm \<Rightarrow>
             (contexts,
              [CreateCdpTarget target,
               HandleWorkerTarget (cdpToBidiTargetTypes (target_type targetInfo)) target (Some realm)]))
      else if target_type targetInfo = ''shared_worker'' then
        (contexts,
         [CreateCdpTarget target,
          HandleWorkerTarget (cdpToBidiTargetTypes (target_type targetInfo)) target None])
      else release)"

subsection \<open>browsingContext.setViewport\<close>

text \<open>
  \<^verbatim>\<open>setViewport\<close> of modules/context/BrowsingContextProcessor.ts; in
  domains/context/browsingContextProcessor.ts the same function is called
  \<^verbatim>\<open>process_browsingContext_setViewport\<close>. \<^verbatim>\<open>context.setViewport\<close> belongs to
  \<^verbatim>\<open>BrowsingContextImpl\<close>: what it returns and the CDP commands it sends are a
  parameter. The result of the command is paired with the CDP commands sent.
\<close>

definition setViewport ::
  "(browsing_context \<Rightarrow> (bidi_exception + unit) \<times> (target_handle \<times> string) list) \<Rightarrow>
   browsing_context_storage \<Rightarrow> string \<Rightarrow>
   (bidi_exception + unit) \<times> (target_handle \<times> string) list" where
  "setViewport context_setViewport contexts i =
     (case getContext contexts i of
        Inl e \<Rightarrow> (Inl e, [])
      | Inr c \<Rightarrow>
          if \<not> isTopLevelContext c then
            (Inl (InvalidArgumentException
               ''Emulating viewport is only supported on the top-level context''), [])
          else context_setViewport c)"

section \<open>CdpTarget\<close>

record cdp_target =
  networkDomainEnabled :: bool
  fetchDomainStages :: stages
  acceptInsecureCerts :: bool

text \<open>
  The outcome of \<^verbatim>\<open>sendCommand\<close> for each command: \<open>None\<close> when it returns, \<open>Some e\<close>
  when it throws \<open>e\<close>.
\<close>

type_synonym cdp_env = "cdp_command \<Rightarrow> cdp_error option"

datatype target_effect = Sent cdp_command | Deferred cdp_command

subsection \<open>Fetch stages: CdpTarget.ts\<close>

text \<open>
  \<^verbatim>\<open>#enableFetch(stages)\<close> of modules/cdp/CdpTarget.ts: the target after the call and
  the commands sent. The old stages are kept and put back when \<^verbatim>\<open>Fetch.enable\<close> throws;
  the error is swallowed.
\<close>

definition enableFetch :: "cdp_env \<Rightarrow> stages \<Rightarrow> cdp_target \<Rightarrow> cdp_target \<times> cdp_command list" where
  "enableFetch env st t =
     (let patterns = fetch_patterns st in
      if networkDomainEnabled t \<and> patterns \<noteq> [] then
        (let oldStages = fetchDomainStages t;
             t1 = t\<lparr>fetchDomainStages := st\<rparr>;
             cmd = FetchEnable patterns (auth st)
         in case env cmd of
              None \<Rightarrow> (t1, [cmd])
            | Some e \<Rightarrow> (t1\<lparr>fetchDomainStages := oldStages\<rparr>, [cmd]))
      else (t, []))"

subsection \<open>Fetch stages: the CdpTarget of part_001\<close>

text \<open>
  \<^verbatim>\<open>toggleFetchIfNeeded()\<close>. The stages that
  \<^verbatim>\<open>networkStorage.getInterceptionStages(topLevelId)\<close> returns are a parameter. With no
  pattern left, \<^verbatim>\<open>Fetch.disable\<close> is deferred until the blocked requests have moved
  on, and is not awaited. The result is what the returned promise settles with, the
  target, and the commands.
\<close>

definition toggleFetchIfNeeded ::
  "cdp_env \<Rightarrow> stages \<Rightarrow> cdp_target \<Rightarrow> cdp_error option \<times> cdp_target \<times> target_effect list" where
  "toggleFetchIfNeeded env st t =
     (if \<not> networkDomainEnabled t \<or>
         (request (fetchDomainStages t) = request st \<and>
          response (fetchDomainStages t) = response st \<and>
          auth (fetchDomainStages t) = auth st)
      then (None, t, [])
      else
        (let t1 = t\<lparr>fetchDomainStages := st\<rparr>;
             patterns = fetch_patterns st
         in if patterns \<noteq> []
            then (env (FetchEnable patterns (auth st)), t1, [Sent (FetchEnable patterns (auth st))])
            else (None, t1, [Deferred FetchDisable])))"

text \<open>
  \<^verbatim>\<open>toggleNetworkIfNeeded()\<close>; whether a subscriber listens to the network module
  (\<^verbatim>\<open>isSubscribedTo\<close>) is a parameter. The flag is set before the commands are sent,
  \<^verbatim>\<open>toggleFetchIfNeeded\<close> is called while the array for \<^verbatim>\<open>Promise.all\<close> is built, and
  the catch block puts the flag back when either promise rejects.
\<close>

definition toggleNetworkIfNeeded ::
  "cdp_env \<Rightarrow> bool \<Rightarrow> stages \<Rightarrow> cdp_target \<Rightarrow> cdp_target \<times> target_effect list" where
  "toggleNetworkIfNeeded env enabled st t =
     (if enabled = networkDomainEnabled t then (t, [])
      else
        (let t1 = t\<lparr>networkDomainEnabled := enabled\<rparr>;
             cmd = (if enabled then NetworkEnable else NetworkDisable);
             (r, t2, effs) = toggleFetchIfNeeded env st t1
         in if env cmd = None \<and> r = None then (t2, Sent cmd # effs)
            else (t2\<lparr>networkDomainEnabled := \<not> enabled\<rparr>, Sent cmd # effs)))"

subsection \<open>The unblock sequence\<close>

text \<open>
  The elements of the array that \<^verbatim>\<open>#unblock\<close> passes to \<^verbatim>\<open>Promise.all\<close>, in the order
  of the array: a command sent on the target's client, the call of
  \<^verbatim>\<open>toggleNetwork()\<close> (\<^verbatim>\<open>toggleNetworkIfNeeded()\<close> in part_001), or the call of
  \<^verbatim>\<open>#initAndEvaluatePreloadScripts()\<close>. Building the array starts every element, one
  after the other, before \<^verbatim>\<open>Promise.all\<close> is called and awaited.
\<close>

datatype unblock_step =
    Command cdp_command
  | ToggleNetwork
  | InitAndEvaluatePreloadScripts

definition unblock_steps :: "cdp_target \<Rightarrow> unblock_step list" where
  "unblock_steps t =
     [Command RuntimeEnable,
      Command PageEnable,
      Command (PageSetLifecycleEventsEnabled True),
      Command (SecuritySetIgnoreCertificateErrors (acceptInsecureCerts t)),
      ToggleNetwork,
      Command (TargetSetAutoAttach True True True),
      InitAndEvaluatePreloadScripts,
      Command RuntimeRunIfWaitingForDebugger]"

datatype unblock_result = Success | Error cdp_error

datatype unblock_event =
    Started unblock_step
  | Settled unblock_step "cdp_error option"
  | Resolved unblock_result

text \<open>
  The environment gives every element of the array the time its promise settles and the
  outcome; \<^verbatim>\<open>sendCommand\<close> returns or throws, so every element settles.
\<close>

type_synonym unblock_env = "unblock_step \<Rightarrow> nat \<times> cdp_error option"

text \<open>
  The catch block of \<^verbatim>\<open>#unblock\<close>, entered when the awaited \<^verbatim>\<open>Promise.all\<close>
  rejects: an error that \<^verbatim>\<open>isCloseError\<close> does not accept resolves the deferred with
  the error, and the function returns. The second component tells whether it returned.
\<close>

definition unblock_catch ::
  "(cdp_error \<Rightarrow> bool) \<Rightarrow> cdp_error option \<Rightarrow> unblock_event list \<times> bool" where
  "unblock_catch isCloseError r =
     (case r of
        None \<Rightarrow> ([], False)
      | Some error \<Rightarrow>
          if \<not> isCloseError error then ([Resolved (Error error)], True) else ([], False))"

text \<open>
  \<^verbatim>\<open>#unblock\<close>: the events in order. The array is built, which starts every element;
  \<^verbatim>\<open>Promise.all\<close> is awaited; after the catch block, unless it returned, the deferred
  is resolved with success.
\<close>

definition unblock :: "(cdp_error \<Rightarrow> bool) \<Rightarrow> unblock_env \<Rightarrow> cdp_target \<Rightarrow> unblock_event list" where
  "unblock isCloseError env t =
     (let steps = unblock_steps t;
          (seen, r) = settled_until_rejection (in_settle_order env steps);
          (caught, returned) = unblock_catch isCloseError r
      in map Started steps @ map (\<lambda>(st, out). Settled st out) seen @ caught @
         (if returned then [] else [Resolved Success]))"

text \<open>
  The steps that have started and not settled when an event occurs (at its first
  occurrence; every started step when it does not occur).
\<close>

fun pending_when :: "unblock_event \<Rightarrow> unblock_event list \<Rightarrow> unblock_step list \<Rightarrow> unblock_step list" where
  "pending_when ev [] pending = pending"
| "pending_when ev (x # xs) pending =
     (if x = ev then pending
      else case x of
             Started st \<Rightarrow> pending_when ev xs (pending @ [st])
           | Settled st out \<Rightarrow> pending_when ev xs (removeAll st pending)
           | Resolved r \<Rightarrow> pending_when ev xs pending)"

fun is_Started :: "unblock_event \<Rightarrow> bool" where
  "is_Started (Started st) = True"
| "is_Started ev = False"

fun is_Resolved :: "unblock_event \<Rightarrow> bool" where
  "is_Resolved (Resolved r) = True"
| "is_Resolved ev = False"

text \<open>The results that \<^verbatim>\<open>#unblocked.resolve\<close> is called with, in order.\<close>

fun resolutions :: "unblock_event list \<Rightarrow> unblock_result list" where
  "resolutions [] = []"
| "resolutions (Resolved r # evs) = r # resolutions evs"
| "resolutions (ev # evs) = resolutions evs"

text \<open>
  No step is pending when \<^verbatim>\<open>Runtime.runIfWaitingForDebugger\<close> is issued: every other
  step that started has settled before.
\<close>

definition issued_after_prerequisites :: "unblock_event list \<Rightarrow> bool" where
  "issued_after_prerequisites tr =
     (pending_when (Started (Command RuntimeRunIfWaitingForDebugger)) tr [] = [])"

section \<open>Concrete inputs\<close>

definition ex_target :: target_handle where
  "ex_target = \<lparr>target_id = ''T1'', cdpSessionId = Some ''S1''\<rparr>"

definition ex_accept :: target_env where
  "ex_accept t c = (0, None)"

definition ex_reject :: target_env where
  "ex_reject t c = (0, Some (CdpError (- 32000) ''Target closed''))"

definition ex_interception :: network_interception where
  "ex_interception = \<lparr>urlPatterns = [], phases = [BeforeRequestSent]\<rparr>"

definition ex_registry :: network_storage where
  "ex_registry = empty_storage\<lparr>targets := [ex_target]\<rparr>"

definition ex_request :: "string \<Rightarrow> string \<Rightarrow> network_request" where
  "ex_request i session =
     \<lparr>req_id = i, redirectCount = 0, fetchId = Some (''F-'' @ i),
      url = Some ''http://example/'', sessionId = Some session, isRedirecting = True,
      calls = []\<rparr>"

definition ex_requests :: network_storage where
  "ex_requests =
     empty_storage\<lparr>requests :=
       [(''r1'', ex_request ''r1'' ''S1''), (''r2'', ex_request ''r2'' ''S2''),
        (''r3'', ex_request ''r3'' ''S1'')]\<rparr>"

definition ex_intercepts :: network_storage where
  "ex_intercepts =
     empty_storage\<lparr>intercepts :=
       [(''a'', \<lparr>urlPatterns = [], phases = [BeforeRequestSent]\<rparr>),
        (''b'', \<lparr>urlPatterns = [UrlPatternString ''http://other/''], phases = [BeforeRequestSent]\<rparr>),
        (''c'', \<lparr>urlPatterns = [], phases = [AuthRequired]\<rparr>),
        (''d'', \<lparr>urlPatterns = [UrlPatternString ''http://other/'', UrlPatternString ''http://example/''],
                phases = [ResponseStarted, BeforeRequestSent]\<rparr>)]\<rparr>"

definition ex_match :: "url_pattern \<Rightarrow> string \<Rightarrow> bool" where
  "ex_match p u = (p = UrlPatternString u)"

definition ex_processor :: processor where
  "ex_processor = \<lparr>selfTargetId = ''SELF'', defaultUserContextId = ''D0''\<rparr>"

definition ex_page :: "string option \<Rightarrow> target_info" where
  "ex_page b = \<lparr>targetId = ''T1'', target_type = ''page'', browserContextId = b\<rparr>"

definition ex_child :: browsing_context where
  "ex_child = \<lparr>ctx_id = ''F1'', parentId = Some ''T1'', userContext = ''default'',
     cdpTarget = ex_target\<rparr>"

definition ex_cdp_target :: cdp_target where
  "ex_cdp_target =
     \<lparr>networkDomainEnabled = False, fetchDomainStages = no_stages, acceptInsecureCerts = False\<rparr>"

definition ex_close_error :: cdp_error where
  "ex_close_error = CdpError (- 32000) ''Target closed''"

definition ex_other_error :: cdp_error where
  "ex_other_error = CdpError (- 32601) ''Method not found''"

definition ex_isCloseError :: "cdp_error \<Rightarrow> bool" where
  "ex_isCloseError e = (e = ex_close_error)"

definition ex_all_fulfil :: unblock_env where
  "ex_all_fulfil st = (0, None)"

definition ex_mixed :: unblock_env where
  "ex_mixed st =
     (if st = Command RuntimeEnable then (1, Some ex_other_error)
      else if st = Command PageEnable then (2, Some ex_close_error)
      else (3, None))"

definition ex_fetch_fails :: cdp_env where
  "ex_fetch_fails cmd = (case cmd of FetchEnable ps a \<Rightarrow> Some ex_close_error | _ \<Rightarrow> None)"

definition ex_request_stage :: stages where
  "ex_request_stage = \<lparr>request = True, response = False, auth = False\<rparr>"

section \<open>Properties of Promise.all\<close>

lemma settled_until_rejection_None:
  "snd (settled_until_rejection ps) = None \<longleftrightarrow> list_all (\<lambda>p. snd p = None) ps"
  by (induction ps rule: settled_until_rejection.induct) (simp_all add: split_beta)

lemma settled_until_rejection_Some:
  assumes "snd (settled_until_rejection ps) = Some e" and "sorted (map (\<lambda>p. tm (fst p)) ps)"
  shows "\<exists>x. (x, Some e) \<in> set ps \<and> (\<forall>p \<in> set ps. snd p \<noteq> None \<longrightarrow> tm x \<le> tm (fst p))"
  using assms
proof (induction ps rule: settled_until_rejection.induct)
  case 1
  then show ?case by simp
next
  case (2 x ps)
  then show ?case by (auto simp: split_beta)
next
  case (3 x e' ps)
  then show ?case by auto
qed

text \<open>\<^verbatim>\<open>Promise.all\<close> fulfils exactly when every element fulfils.\<close>

lemma promise_all_None:
  "promise_all env xs = None \<longleftrightarrow> (\<forall>x \<in> set xs. snd (env x) = None)"
  by (simp add: promise_all_def in_settle_order_def settled_until_rejection_None list_all_iff)

text \<open>It rejects with the reason of a rejection that no other rejection precedes.\<close>

lemma promise_all_Some:
  fixes env :: "'a \<Rightarrow> nat \<times> 'e option"
  assumes "promise_all env xs = Some e"
  shows "\<exists>x \<in> set xs. snd (env x) = Some e \<and>
           (\<forall>x' \<in> set xs. snd (env x') \<noteq> None \<longrightarrow> fst (env x) \<le> fst (env x'))"
proof -
  let ?L = "in_settle_order env xs"
  have "sorted (map (\<lambda>p. fst (env (fst p))) ?L)"
    by (simp add: in_settle_order_def comp_def sorted_sort_key)
  from settled_until_rejection_Some[OF assms[unfolded promise_all_def] this]
  obtain x where x: "(x, Some e) \<in> set ?L"
    and least: "\<forall>p \<in> set ?L. snd p \<noteq> None \<longrightarrow> fst (env x) \<le> fst (env (fst p))"
    by blast
  from x have "x \<in> set xs" "snd (env x) = Some e" by (auto simp: in_settle_order_def)
  moreover from least
  have "\<forall>x' \<in> set xs. snd (env x') \<noteq> None \<longrightarrow> fst (env x) \<le> fst (env x')"
    by (auto simp: in_settle_order_def)
  ultimately show ?thesis by blast
qed

section \<open>Properties of NetworkStorage\<close>

subsection \<open>requestBlockedBy\<close>

lemma somePatternMatches_iff:
  "somePatternMatches m ps u \<longleftrightarrow> (\<exists>p \<in> set ps. m p u)"
  by (induction ps) auto

lemma set_set_add: "set (set_add x xs) = insert x (set xs)"
  by (auto simp: set_add_def)

lemma set_blockedByLoop:
  "set (blockedByLoop m u ph es acc) =
     set acc \<union> {i. \<exists>v. (i, v) \<in> set es \<and> ph \<in> set (phases v) \<and>
                        (urlPatterns v = [] \<or> (\<exists>p \<in> set (urlPatterns v). m p u))}"
proof (induction es arbitrary: acc)
  case Nil
  show ?case by simp
next
  case (Cons e es)
  obtain i v where e: "e = (i, v)" by (cases e)
  show ?case
    unfolding e
    by (simp add: Cons.IH set_set_add somePatternMatches_iff) blast
qed

text \<open>
  C6. For a request with a defined url and a defined phase, \<^verbatim>\<open>requestBlockedBy\<close>
  returns exactly the ids of the intercepts of the registry whose phase list contains
  the phase and whose url-pattern list is empty or has a pattern that matches the url;
  when the url or the phase is undefined the result is the empty set.
\<close>

theorem requestBlockedBy_exact:
  "set (requestBlockedBy m s (req\<lparr>url := Some u\<rparr>) (Some ph)) =
     {i. \<exists>v. (i, v) \<in> set (intercepts s) \<and> ph \<in> set (phases v) \<and>
              (urlPatterns v = [] \<or> (\<exists>p \<in> set (urlPatterns v). m p u))}
   \<and> requestBlockedBy m s (req\<lparr>url := None\<rparr>) phase = []
   \<and> requestBlockedBy m s req None = []"
  by (simp add: requestBlockedBy_def set_blockedByLoop split: option.splits)

text \<open>
  With four intercepts, a request for \<^verbatim>\<open>http://example/\<close> in the phase
  beforeRequestSent is blocked by the one without patterns and the one with a matching
  pattern, not by the one whose pattern does not match or the one of another phase.
\<close>

theorem requestBlockedBy_exact_witness:
  "requestBlockedBy ex_match ex_intercepts
          ((ex_request ''r1'' ''S1'')\<lparr>url := Some ''http://example/''\<rparr>)
          (Some BeforeRequestSent) = [''a'', ''d'']
   \<and> {i. \<exists>v. (i, v) \<in> set (intercepts ex_intercepts) \<and> BeforeRequestSent \<in> set (phases v) \<and>
              (urlPatterns v = [] \<or> (\<exists>p \<in> set (urlPatterns v). ex_match p ''http://example/''))} =
       set [''a'', ''d'']
   \<and> requestBlockedBy ex_match ex_intercepts ((ex_request ''r1'' ''S1'')\<lparr>url := None\<rparr>)
        (Some BeforeRequestSent) = []"
proof -
  note exact = requestBlockedBy_exact[where m = ex_match and s = ex_intercepts
      and req = "ex_request ''r1'' ''S1''" and u = "''http://example/''"
      and ph = BeforeRequestSent and phase = "Some BeforeRequestSent"]
  have eval: "requestBlockedBy ex_match ex_intercepts
          ((ex_request ''r1'' ''S1'')\<lparr>url := Some ''http://example/''\<rparr>)
          (Some BeforeRequestSent) = [''a'', ''d'']"
    by (simp add: requestBlockedBy_def ex_intercepts_def ex_match_def empty_storage_def
        set_add_def)
  from exact have "{i. \<exists>v. (i, v) \<in> set (intercepts ex_intercepts) \<and>
        BeforeRequestSent \<in> set (phases v) \<and>
        (urlPatterns v = [] \<or> (\<exists>p \<in> set (urlPatterns v). ex_match p ''http://example/''))} =
      set (requestBlockedBy ex_match ex_intercepts
          ((ex_request ''r1'' ''S1'')\<lparr>url := Some ''http://example/''\<rparr>)
          (Some BeforeRequestSent))"
    by (elim conjE) (rule sym)
  then have comp: "{i. \<exists>v. (i, v) \<in> set (intercepts ex_intercepts) \<and>
        BeforeRequestSent \<in> set (phases v) \<and>
        (urlPatterns v = [] \<or> (\<exists>p \<in> set (urlPatterns v). ex_match p ''http://example/''))} =
      set [''a'', ''d'']"
    by (simp only: eval)
  from exact have none: "requestBlockedBy ex_match ex_intercepts
      ((ex_request ''r1'' ''S1'')\<lparr>url := None\<rparr>) (Some BeforeRequestSent) = []"
    by (elim conjE)
  from eval comp none show ?thesis by (intro conjI)
qed

subsection \<open>The request map\<close>

lemma update_fresh: "k \<notin> fst ` set al \<Longrightarrow> AList.update k v al = al @ [(k, v)]"
  by (induction al) auto

lemma update_at_end: "k \<notin> fst ` set al \<Longrightarrow> AList.update k v (al @ [(k, w)]) = al @ [(k, v)]"
  by (induction al) auto

lemma map_of_at_end: "k \<notin> fst ` set al \<Longrightarrow> map_of (al @ [(k, w)]) k = Some w"
  by (induction al) auto

lemma update_keys_present: "map_of al k = Some v \<Longrightarrow> map fst (AList.update k w al) = map fst al"
  by (induction al) (auto split: if_splits)

text \<open>The request map is keyed by the requests' ids from the start and stays so.\<close>

lemma keyed_by_id_empty: "keyed_by_id (requests empty_storage)"
  by (simp add: keyed_by_id_def empty_storage_def)

lemma set_update_subset: "set (AList.update k v al) \<subseteq> insert (k, v) (set al)"
  by (induction al) auto

lemma keyed_by_id_update:
  assumes "keyed_by_id rs" and "req_id r = k"
  shows "keyed_by_id (AList.update k r rs)"
proof -
  from assms(1) have "distinct (map fst (AList.update k r rs))"
    by (simp add: keyed_by_id_def AList.distinct_update)
  moreover from assms have "list_all (\<lambda>(k, r). req_id r = k) (AList.update k r rs)"
    using set_update_subset[of k r rs] by (auto simp: keyed_by_id_def list_all_iff)
  ultimately show ?thesis by (simp add: keyed_by_id_def)
qed

lemma keyed_by_id_delete:
  assumes "keyed_by_id rs"
  shows "keyed_by_id (AList.delete k rs)"
proof -
  from assms have "distinct (map fst (AList.delete k rs))"
    by (simp add: keyed_by_id_def AList.distinct_delete)
  moreover from assms have "list_all (\<lambda>(k, r). req_id r = k) (AList.delete k rs)"
    by (auto simp: keyed_by_id_def list_all_iff AList.delete_eq)
  ultimately show ?thesis by (simp add: keyed_by_id_def)
qed

lemma keyed_by_id_addRequest:
  "keyed_by_id (requests s) \<Longrightarrow> keyed_by_id (requests (addRequest r s))"
  by (simp add: addRequest_def keyed_by_id_update)

lemma keyed_by_id_deleteRequest:
  "keyed_by_id (requests s) \<Longrightarrow> keyed_by_id (requests (fst (deleteRequest i s)))"
  by (simp add: deleteRequest_def keyed_by_id_delete split: option.splits)

lemma keyed_by_id_call_request:
  "keyed_by_id (requests s) \<Longrightarrow> keyed_by_id (requests (call_request i c s))"
proof (cases "map_of (requests s) i")
  case None
  assume "keyed_by_id (requests s)"
  with None show ?thesis by (simp add: call_request_def)
next
  case (Some r)
  assume k: "keyed_by_id (requests s)"
  from Some have "(i, r) \<in> set (requests s)" by (rule map_of_SomeD)
  with k have "req_id r = i" by (auto simp: keyed_by_id_def list_all_iff)
  with k Some show ?thesis by (simp add: call_request_def keyed_by_id_update call_def)
qed

lemma keyed_by_id_getOrCreate:
  "keyed_by_id (requests s) \<Longrightarrow>
   keyed_by_id (requests (getOrCreateNetworkRequest i target count s))"
  by (cases "getRequestById s i")
     (simp_all add: getOrCreateNetworkRequest_def addRequest_def keyed_by_id_update
      new_NetworkRequest_def)

lemma keyed_by_id_onRequestWillBeSent:
  assumes "keyed_by_id (requests s)"
  shows "keyed_by_id (requests (fst (onRequestWillBeSent target i params s)))"
proof (cases "getRequestById s i")
  case None
  with assms show ?thesis
    by (simp add: onRequestWillBeSent_def keyed_by_id_call_request keyed_by_id_getOrCreate)
next
  case (Some req)
  show ?thesis
  proof (cases "isRedirecting req")
    case False
    with Some assms show ?thesis
      by (simp add: onRequestWillBeSent_def keyed_by_id_call_request)
  next
    case True
    have "keyed_by_id (requests (fst (deleteRequest i (call_request i (HandleRedirect params) s))))"
      using assms by (intro keyed_by_id_deleteRequest keyed_by_id_call_request)
    then have "keyed_by_id (requests (call_request i (OnRequestWillBeSentEvent params)
        (getOrCreateNetworkRequest i target (Some (redirectCount req + 1))
          (fst (deleteRequest i (call_request i (HandleRedirect params) s))))))"
      by (intro keyed_by_id_call_request keyed_by_id_getOrCreate)
    with Some True show ?thesis
      by (simp add: onRequestWillBeSent_def Let_def split_beta)
  qed
qed

lemma call_first_with_fetchId_keys:
  "map fst (call_first_with_fetchId f c rs) = map fst rs"
  by (induction rs rule: call_first_with_fetchId.induct) simp_all

lemma call_first_with_fetchId_ids:
  "list_all (\<lambda>(k, r). req_id r = k) rs \<Longrightarrow>
   list_all (\<lambda>(k, r). req_id r = k) (call_first_with_fetchId f c rs)"
  by (induction rs rule: call_first_with_fetchId.induct) (simp_all add: call_def)

lemma keyed_by_id_handleAuthInterception:
  "keyed_by_id (requests s) \<Longrightarrow>
   keyed_by_id (requests (fst (handleAuthInterception target requestId params s)))"
  by (simp add: handleAuthInterception_def keyed_by_id_def call_first_with_fetchId_keys
      call_first_with_fetchId_ids Let_def split: option.splits)

subsection \<open>disposeRequestMap\<close>

lemma fold_delete_requests:
  "fold (\<lambda>r st. st\<lparr>requests := AList.delete (req_id r) (requests st)\<rparr>) rs s =
     s\<lparr>requests := filter (\<lambda>(k, v). k \<notin> req_id ` set rs) (requests s)\<rparr>"
proof (induction rs arbitrary: s)
  case Nil
  show ?case by simp
next
  case (Cons r rs)
  have "filter (\<lambda>(k, v). k \<notin> req_id ` set rs) (AList.delete (req_id r) (requests s)) =
        filter (\<lambda>(k, v). k \<notin> req_id ` set (r # rs)) (requests s)"
    by (auto simp: AList.delete_eq intro!: filter_cong)
  then show ?case by (simp add: Cons.IH)
qed

lemma keyed_by_id_session:
  assumes "keyed_by_id rs" and "(k, r) \<in> set rs"
  shows "k \<in> req_id ` set (filter (\<lambda>r. sessionId r = Some sid) (map snd rs)) \<longleftrightarrow>
         sessionId r = Some sid"
proof
  assume "k \<in> req_id ` set (filter (\<lambda>r. sessionId r = Some sid) (map snd rs))"
  then obtain k' r' where r': "(k', r') \<in> set rs" "sessionId r' = Some sid" "req_id r' = k"
    by auto
  from assms(1) r'(1) have "req_id r' = k'"
    by (auto simp: keyed_by_id_def list_all_iff)
  with r'(3) have "k' = k" by simp
  with assms r'(1) have "r' = r"
    by (auto simp: keyed_by_id_def dest: eq_key_imp_eq_value)
  with r'(2) show "sessionId r = Some sid" by simp
next
  assume s: "sessionId r = Some sid"
  from assms have "req_id r = k"
    by (auto simp: keyed_by_id_def list_all_iff)
  with s assms(2) show "k \<in> req_id ` set (filter (\<lambda>r. sessionId r = Some sid) (map snd rs))"
    by force
qed

text \<open>
  C10. \<^verbatim>\<open>disposeRequestMap(s)\<close> removes from the request map exactly the requests
  whose CDP client has the session id \<open>s\<close>, and \<^verbatim>\<open>dispose()\<close> is called on each of
  them; the entries of every other session stay in the map, in their order and
  unmodified, and nothing else of the storage changes. The request map is keyed by the
  requests' ids, as \<^verbatim>\<open>addRequest\<close> makes it.
\<close>

theorem disposeRequestMap_exact:
  assumes "keyed_by_id (requests s)"
  shows "fst (disposeRequestMap sid s) =
           s\<lparr>requests := filter (\<lambda>(k, r). sessionId r \<noteq> Some sid) (requests s)\<rparr>
       \<and> snd (disposeRequestMap sid s) =
           map (call Dispose) (filter (\<lambda>r. sessionId r = Some sid) (map snd (requests s)))"
proof -
  have "filter (\<lambda>(k, v). k \<notin> req_id ` set (filter (\<lambda>r. sessionId r = Some sid) (map snd (requests s))))
          (requests s) =
        filter (\<lambda>(k, r). sessionId r \<noteq> Some sid) (requests s)"
  proof (rule filter_cong[OF refl])
    fix x assume x: "x \<in> set (requests s)"
    obtain k r where kr: "x = (k, r)" by (cases x)
    from x show "(case x of (k, v) \<Rightarrow> k \<notin> req_id ` set (filter (\<lambda>r. sessionId r = Some sid) (map snd (requests s)))) =
          (case x of (k, r) \<Rightarrow> sessionId r \<noteq> Some sid)"
      unfolding kr using keyed_by_id_session[OF assms, of k r sid] by simp
  qed
  then show ?thesis
    by (simp add: disposeRequestMap_def fold_delete_requests)
qed

text \<open>
  Of three requests, two of session S1 and one of session S2, disposing S1 leaves the
  request of S2 as it was and disposes the two others.
\<close>

theorem disposeRequestMap_exact_witness:
  "keyed_by_id (requests ex_requests)
   \<and> fst (disposeRequestMap ''S1'' ex_requests) =
       ex_requests\<lparr>requests := [(''r2'', ex_request ''r2'' ''S2'')]\<rparr>
   \<and> snd (disposeRequestMap ''S1'' ex_requests) =
       [call Dispose (ex_request ''r1'' ''S1''), call Dispose (ex_request ''r3'' ''S1'')]"
proof -
  have k: "keyed_by_id (requests ex_requests)"
    by (simp add: keyed_by_id_def ex_requests_def ex_request_def empty_storage_def)
  from disposeRequestMap_exact[OF k, of "''S1''"] k show ?thesis
    by (simp add: ex_requests_def ex_request_def empty_storage_def)
qed

lemma keyed_by_id_disposeRequestMap:
  assumes "keyed_by_id (requests s)"
  shows "keyed_by_id (requests (fst (disposeRequestMap sid s)))"
proof -
  let ?ids = "req_id ` set (filter (\<lambda>r. sessionId r = Some sid) (map snd (requests s)))"
  have eq: "requests (fst (disposeRequestMap sid s)) =
      filter (\<lambda>(k, v). k \<notin> ?ids) (requests s)"
    by (simp add: disposeRequestMap_def fold_delete_requests)
  from assms have "distinct (map fst (filter (\<lambda>(k, v). k \<notin> ?ids) (requests s)))"
    by (simp add: keyed_by_id_def distinct_map_filter)
  moreover from assms
  have "list_all (\<lambda>(k, r). req_id r = k) (filter (\<lambda>(k, v). k \<notin> ?ids) (requests s))"
    by (auto simp: keyed_by_id_def list_all_iff)
  ultimately show ?thesis
    by (simp only: eq keyed_by_id_def)
qed

subsection \<open>Fetch.authRequired\<close>

text \<open>
  C4. When \<^verbatim>\<open>Fetch.authRequired\<close> arrives and no request of the map has the event's
  request id as its fetch id, the handler sends \<^verbatim>\<open>Fetch.continueWithAuth\<close> for that
  request id with the response \<^verbatim>\<open>Default\<close> on the client of the target, at once and
  without awaiting it. It calls no method of any request and leaves the storage as it
  was, so no BiDi event is emitted.
\<close>

theorem handleAuthInterception_default:
  assumes "list_all (\<lambda>(k, r). fetchId r \<noteq> Some (case requestId of None \<Rightarrow> '''' | Some i \<Rightarrow> i))
             (requests s)"
  shows "handleAuthInterception target requestId params s =
           (s, [(target, FetchContinueWithAuth requestId ''Default'')])"
proof -
  have "find (\<lambda>r. fetchId r = Some (case requestId of None \<Rightarrow> '''' | Some i \<Rightarrow> i))
          (map snd (requests s)) = None"
    using assms by (auto simp: find_None_iff list_all_iff)
  then show ?thesis
    by (simp add: handleAuthInterception_def getRequestByFetchId_def)
qed

text \<open>
  The three tracked requests have the fetch ids F-r1, F-r2 and F-r3; a challenge for
  F-r9 is continued with the default response.
\<close>

theorem handleAuthInterception_default_witness:
  "handleAuthInterception ex_target (Some ''F-r9'') ''challenge'' ex_requests =
     (ex_requests, [(ex_target, FetchContinueWithAuth (Some ''F-r9'') ''Default'')])"
proof -
  have h: "list_all (\<lambda>(k, r). fetchId r \<noteq> Some (case Some ''F-r9'' of None \<Rightarrow> '''' | Some i \<Rightarrow> i))
             (requests ex_requests)"
    by (simp add: ex_requests_def ex_request_def empty_storage_def)
  show ?thesis by (rule handleAuthInterception_default[OF h])
qed

subsection \<open>Network.requestWillBeSent on a redirecting request\<close>

text \<open>
  C5. When \<^verbatim>\<open>Network.requestWillBeSent\<close> arrives for a request id whose request in the
  map is redirecting, \<^verbatim>\<open>handleRedirect\<close> and then \<^verbatim>\<open>dispose\<close> are called on the old
  request and its entry is deleted from the map; a new request is created under the same
  id, with the redirect count of the old request plus one, and the event is passed to
  \<^verbatim>\<open>onRequestWillBeSentEvent\<close> of the new request. The other entries are untouched.
\<close>

theorem onRequestWillBeSent_redirect:
  assumes "getRequestById s i = Some old" and "isRedirecting old"
  shows "onRequestWillBeSent target i params s =
           (s\<lparr>requests := AList.delete i (requests s) @
                [(i, call (OnRequestWillBeSentEvent params)
                       (new_NetworkRequest i target (Some (redirectCount old + 1))))]\<rparr>,
            [call Dispose (call (HandleRedirect params) old)])
       \<and> redirectCount (call (OnRequestWillBeSentEvent params)
            (new_NetworkRequest i target (Some (redirectCount old + 1)))) = redirectCount old + 1
       \<and> map_of (AList.delete i (requests s)) i = None"
proof -
  let ?al = "AList.delete i (requests s)"
  have fresh: "i \<notin> fst ` set ?al" by (rule AList.delete_notin_dom)
  have del: "AList.delete i (AList.update i x (requests s)) = ?al" for x
    by (simp add: AList.delete_update_same)
  have none: "map_of ?al i = None" by (simp add: AList.delete_conv')
  show ?thesis
    using assms fresh none
    by (simp add: onRequestWillBeSent_def getRequestById_def call_request_def deleteRequest_def
        getOrCreateNetworkRequest_def addRequest_def AList.update_conv' del update_fresh
        update_at_end map_of_at_end new_NetworkRequest_def call_def Let_def map_add_def)
qed

text \<open>
  The request r1 is redirecting with redirect count 0: after the event the map holds r2
  and r3 as before and a new r1 with redirect count 1 that has received the event; the
  old r1 has been told of the redirect and disposed.
\<close>

theorem onRequestWillBeSent_redirect_witness:
  "getRequestById ex_requests ''r1'' = Some (ex_request ''r1'' ''S1'')
   \<and> isRedirecting (ex_request ''r1'' ''S1'')
   \<and> map (\<lambda>(k, r). (k, redirectCount r, calls r))
        (requests (fst (onRequestWillBeSent ex_target ''r1'' ''e'' ex_requests))) =
      [(''r2'', 0, []), (''r3'', 0, []), (''r1'', 1, [OnRequestWillBeSentEvent ''e''])]
   \<and> map calls (snd (onRequestWillBeSent ex_target ''r1'' ''e'' ex_requests)) =
      [[HandleRedirect ''e'', Dispose]]"
proof -
  have a: "getRequestById ex_requests ''r1'' = Some (ex_request ''r1'' ''S1'')"
    by (simp add: getRequestById_def ex_requests_def empty_storage_def)
  have b: "isRedirecting (ex_request ''r1'' ''S1'')"
    by (simp add: ex_request_def)
  from onRequestWillBeSent_redirect[OF a b, of ex_target "''e''"] a b show ?thesis
    by (simp add: ex_requests_def ex_request_def empty_storage_def new_NetworkRequest_def
        call_def)
qed

subsection \<open>The intercept registry\<close>

lemma toggleInterception_accepted:
  assumes "\<And>t c. snd (env t c) = None"
  shows "fst (toggleInterception env s) = None"
  using assms
  by (simp add: toggleInterception_def Let_def promise_all_None split_beta)

lemma toggleInterception_intercepts:
  "intercepts (fst (snd (toggleInterception env s))) = intercepts s"
  by (simp add: toggleInterception_def Let_def)

text \<open>
  \<^verbatim>\<open>toggleInterception\<close> records the new stages of the storage before it awaits the
  targets, and keeps them when a target rejects.
\<close>

lemma toggleInterception_keeps_stages:
  "interceptionStages (fst (snd (toggleInterception env s))) =
     (if intercepts s \<noteq> [] then fold or_phases (map snd (intercepts s)) no_stages
      else no_stages)"
  by (simp add: toggleInterception_def Let_def)

lemma addIntercept_intercepts:
  "intercepts (fst (snd (addIntercept i v env s))) = AList.update i v (intercepts s)"
  by (simp add: addIntercept_def split_beta toggleInterception_intercepts)

lemma addIntercept_returns:
  "fst (addIntercept i v env s) = Inr j \<Longrightarrow> j = i"
  by (auto simp: addIntercept_def split_beta split: option.splits)

lemma removeIntercept_absent:
  "map_of (intercepts s) i = None \<Longrightarrow>
   removeIntercept i env s = (Inl (no_such_intercept i), s, [])"
  by (simp add: removeIntercept_def)

lemma removeIntercept_present:
  assumes "map_of (intercepts s) i = Some v"
  shows "removeIntercept i env s =
           (case toggleInterception env (s\<lparr>intercepts := AList.delete i (intercepts s)\<rparr>) of
              (r, s', cs) \<Rightarrow> (case r of Some e \<Rightarrow> Inl (CdpException e) | None \<Rightarrow> Inr (), s', cs))"
  using assms by (simp add: removeIntercept_def)

lemma removeIntercept_intercepts:
  "intercepts (fst (snd (removeIntercept i env s))) = AList.delete i (intercepts s)"
proof (cases "map_of (intercepts s) i")
  case None
  then have "i \<notin> fst ` set (intercepts s)" by (simp add: map_of_eq_None_iff)
  with None show ?thesis by (simp add: removeIntercept_absent)
next
  case (Some v)
  then show ?thesis
    by (simp add: removeIntercept_present split_beta toggleInterception_intercepts)
qed

lemma apply_op_absent:
  "\<not> generates i op \<Longrightarrow> map_of (intercepts s) i = None \<Longrightarrow>
   map_of (intercepts (apply_intercept_op op s)) i = None"
  by (cases op; cases "snd op")
     (simp_all add: addIntercept_intercepts removeIntercept_intercepts
        AList.update_conv' AList.delete_conv')

lemma apply_op_present:
  "\<not> mentions i op \<Longrightarrow>
   map_of (intercepts (apply_intercept_op op s)) i = map_of (intercepts s) i"
  by (cases op; cases "snd op")
     (simp_all add: addIntercept_intercepts removeIntercept_intercepts
        AList.update_conv' AList.delete_conv')

lemma run_absent:
  "list_all (\<lambda>op. \<not> generates i op) ops \<Longrightarrow> map_of (intercepts s) i = None \<Longrightarrow>
   map_of (intercepts (run_intercept_ops ops s)) i = None"
  unfolding run_intercept_ops_def
  by (induction ops arbitrary: s) (simp_all add: apply_op_absent)

lemma run_present:
  "list_all (\<lambda>op. \<not> mentions i op) ops \<Longrightarrow>
   map_of (intercepts (run_intercept_ops ops s)) i = map_of (intercepts s) i"
  unfolding run_intercept_ops_def
  by (induction ops arbitrary: s) (simp_all add: apply_op_present)

text \<open>
  What \<^verbatim>\<open>toggleInterception\<close> does, written out: the stages recorded afterwards are
  the phases of the registered intercepts or-ed together; every target is told to
  disable Fetch when no intercept is left, and to enable it with the patterns of the
  new stages when the stages changed; the awaited result is that of these calls.
\<close>

lemma toggleInterception_unfold:
  "toggleInterception env s =
     (let st = fold or_phases (map snd (intercepts s)) no_stages;
          cs = (if intercepts s = [] then map (\<lambda>t. (t, DisableFetchIfNeeded)) (targets s)
                else if request (interceptionStages s) = request st \<and>
                        response (interceptionStages s) = response st \<and>
                        auth (interceptionStages s) = auth st
                then []
                else map (\<lambda>t. (t, EnableFetchIfNeeded (fetch_patterns st) (auth st)))
                       (targets s))
      in (promise_all (\<lambda>(t, c). env t c) cs, s\<lparr>interceptionStages := st\<rparr>, cs))"
  by (simp add: toggleInterception_def Let_def promise_all_def in_settle_order_def)

text \<open>
  C2, as the code has it. Let \<^verbatim>\<open>addIntercept\<close> return the id \<open>i\<close>, and let other
  calls that do not mention \<open>i\<close> follow (\<open>ops1\<close>). The first \<^verbatim>\<open>removeIntercept(i)\<close>
  then finds the entry and does not throw \<^verbatim>\<open>NoSuchInterceptException\<close>. It deletes the
  entry and re-synchronises the fetch state: the recorded stages become the phases of
  the remaining intercepts or-ed together, \<^verbatim>\<open>disableFetchIfNeeded\<close> is called on every
  target when no intercept remains, and \<^verbatim>\<open>enableFetchIfNeeded\<close> with the patterns of
  the new stages is called on every target when intercepts remain and the stages
  changed. The call returns normally when every one of these target calls is accepted,
  and rejects with the error of the target call that rejects first otherwise; the entry
  is deleted in both cases. After any further calls in which \<^verbatim>\<open>addIntercept\<close> does not
  generate \<open>i\<close> again (\<open>ops2\<close>, which may remove \<open>i\<close> any number of times),
  \<^verbatim>\<open>removeIntercept(i)\<close> throws \<^verbatim>\<open>NoSuchInterceptException\<close> with the message
  \<^verbatim>\<open>Intercept '<i>' does not exist.\<close>, changes nothing and calls no target. So does
  \<^verbatim>\<open>removeIntercept(j)\<close> for an id \<open>j\<close> that \<^verbatim>\<open>addIntercept\<close> has never generated
  since the registry was empty (\<open>ops3\<close>).
\<close>

theorem removeIntercept_once:
  fixes env1 env2 env3 :: target_env
  assumes add: "fst (addIntercept u v env0 s0) = Inr i"
    and between: "list_all (\<lambda>op. \<not> mentions i op) ops1"
    and later: "list_all (\<lambda>op. \<not> generates i op) ops2"
    and init: "intercepts s00 = []"
    and never: "list_all (\<lambda>op. \<not> generates j op) ops3"
  defines "s1 \<equiv> run_intercept_ops ops1 (fst (snd (addIntercept u v env0 s0)))"
  defines "remaining \<equiv> AList.delete i (intercepts s1)"
  defines "st \<equiv> fold or_phases (map snd remaining) no_stages"
  defines "cs \<equiv>
     (if remaining = [] then map (\<lambda>t. (t, DisableFetchIfNeeded)) (targets s1)
      else if request (interceptionStages s1) = request st \<and>
              response (interceptionStages s1) = response st \<and>
              auth (interceptionStages s1) = auth st
      then []
      else map (\<lambda>t. (t, EnableFetchIfNeeded (fetch_patterns st) (auth st))) (targets s1))"
  defines "s2 \<equiv> run_intercept_ops ops2 (fst (snd (removeIntercept i env1 s1)))"
  defines "s3 \<equiv> run_intercept_ops ops3 s00"
  shows "map_of (intercepts s1) i = Some v
       \<and> removeIntercept i env1 s1 =
           (case promise_all (\<lambda>(t, c). env1 t c) cs of
              Some e \<Rightarrow> Inl (CdpException e)
            | None \<Rightarrow> Inr (),
            s1\<lparr>intercepts := remaining, interceptionStages := st\<rparr>, cs)
       \<and> map_of remaining i = None
       \<and> (list_all (\<lambda>(t, c). snd (env1 t c) = None) cs \<longrightarrow>
            fst (removeIntercept i env1 s1) = Inr ())
       \<and> (\<not> list_all (\<lambda>(t, c). snd (env1 t c) = None) cs \<longrightarrow>
            (\<exists>t c e. (t, c) \<in> set cs \<and> snd (env1 t c) = Some e \<and>
               fst (removeIntercept i env1 s1) = Inl (CdpException e)))
       \<and> removeIntercept i env2 s2 =
           (Inl (NoSuchInterceptException
              (''Intercept '' @ [CHR 0x27] @ i @ [CHR 0x27] @ '' does not exist.'')), s2, [])
       \<and> removeIntercept j env3 s3 =
           (Inl (NoSuchInterceptException
              (''Intercept '' @ [CHR 0x27] @ j @ [CHR 0x27] @ '' does not exist.'')), s3, [])"
proof -
  from add have iu: "i = u" by (rule addIntercept_returns)
  have "map_of (intercepts (fst (snd (addIntercept u v env0 s0)))) i = Some v"
    by (simp add: iu addIntercept_intercepts AList.update_conv')
  with between have present: "map_of (intercepts s1) i = Some v"
    by (simp add: s1_def run_present)
  let ?p = "promise_all (\<lambda>(t, c). env1 t c) cs"
  have first: "removeIntercept i env1 s1 =
           (case ?p of Some e \<Rightarrow> Inl (CdpException e) | None \<Rightarrow> Inr (),
            s1\<lparr>intercepts := remaining, interceptionStages := st\<rparr>, cs)"
    by (simp add: removeIntercept_present[OF present] toggleInterception_unfold Let_def
        remaining_def st_def cs_def)
  have gone: "map_of remaining i = None"
    by (simp add: remaining_def AList.delete_conv')
  have accepted: "list_all (\<lambda>(t, c). snd (env1 t c) = None) cs \<longrightarrow>
            fst (removeIntercept i env1 s1) = Inr ()"
  proof
    assume "list_all (\<lambda>(t, c). snd (env1 t c) = None) cs"
    then have "?p = None"
      by (simp add: promise_all_None list_all_iff split_beta)
    then show "fst (removeIntercept i env1 s1) = Inr ()" by (simp add: first)
  qed
  have rejected: "\<not> list_all (\<lambda>(t, c). snd (env1 t c) = None) cs \<longrightarrow>
            (\<exists>t c e. (t, c) \<in> set cs \<and> snd (env1 t c) = Some e \<and>
               fst (removeIntercept i env1 s1) = Inl (CdpException e))"
  proof
    assume "\<not> list_all (\<lambda>(t, c). snd (env1 t c) = None) cs"
    then have "?p \<noteq> None"
      by (simp add: promise_all_None list_all_iff split_beta)
    then obtain e where e: "?p = Some e" by blast
    from promise_all_Some[OF e] obtain x where x: "x \<in> set cs"
      "snd ((\<lambda>(t, c). env1 t c) x) = Some e"
      by blast
    obtain t c where tc: "x = (t, c)" by (cases x)
    from x have "(t, c) \<in> set cs \<and> snd (env1 t c) = Some e"
      unfolding tc by simp
    then have "\<exists>t c. (t, c) \<in> set cs \<and> snd (env1 t c) = Some e"
      by blast
    moreover have "fst (removeIntercept i env1 s1) = Inl (CdpException e)"
      by (simp add: first e)
    ultimately show "\<exists>t c e. (t, c) \<in> set cs \<and> snd (env1 t c) = Some e \<and>
               fst (removeIntercept i env1 s1) = Inl (CdpException e)"
      by blast
  qed
  have "map_of (intercepts (fst (snd (removeIntercept i env1 s1)))) i = None"
    by (simp add: removeIntercept_intercepts AList.delete_conv')
  with later have "map_of (intercepts s2) i = None"
    by (simp add: s2_def run_absent)
  then have third: "removeIntercept i env2 s2 =
      (Inl (NoSuchInterceptException
         (''Intercept '' @ [CHR 0x27] @ i @ [CHR 0x27] @ '' does not exist.'')), s2, [])"
    unfolding no_such_intercept_def[symmetric] by (rule removeIntercept_absent)
  from init have "map_of (intercepts s00) j = None" by simp
  with never have "map_of (intercepts s3) j = None"
    by (simp add: s3_def run_absent)
  then have fourth: "removeIntercept j env3 s3 =
      (Inl (NoSuchInterceptException
         (''Intercept '' @ [CHR 0x27] @ j @ [CHR 0x27] @ '' does not exist.'')), s3, [])"
    unfolding no_such_intercept_def[symmetric] by (rule removeIntercept_absent)
  from present first gone accepted rejected third fourth show ?thesis by (intro conjI)
qed

text \<open>
  On a registry with one target that accepts every call: the intercept u1 is added,
  which records the request stage. Removing it deletes the entry, records that no stage
  is left and calls \<^verbatim>\<open>disableFetchIfNeeded\<close> on the target, and returns normally.
  After another intercept has been added, removing u1 again fails, and so does removing
  the id bogus, which was never generated.
\<close>

theorem removeIntercept_once_witness:
  "addIntercept ''u1'' ex_interception ex_accept ex_registry =
     (Inr ''u1'',
      ex_registry\<lparr>intercepts := [(''u1'', ex_interception)],
                  interceptionStages := \<lparr>request = True, response = False, auth = False\<rparr>\<rparr>,
      [(ex_target, EnableFetchIfNeeded [(''*'', Request)] False)])
   \<and> removeIntercept ''u1'' ex_accept
         (fst (snd (addIntercept ''u1'' ex_interception ex_accept ex_registry))) =
     (Inr (), ex_registry, [(ex_target, DisableFetchIfNeeded)])
   \<and> fst (removeIntercept ''u1'' ex_accept
       (run_intercept_ops [(ex_accept, AddIntercept ''u2'' ex_interception)]
         (fst (snd (removeIntercept ''u1'' ex_accept
           (fst (snd (addIntercept ''u1'' ex_interception ex_accept ex_registry)))))))) =
      Inl (NoSuchInterceptException
        (''Intercept '' @ [CHR 0x27] @ ''u1'' @ [CHR 0x27] @ '' does not exist.''))
   \<and> fst (removeIntercept ''bogus'' ex_accept
       (run_intercept_ops [(ex_accept, AddIntercept ''u2'' ex_interception)] ex_registry)) =
      Inl (NoSuchInterceptException
        (''Intercept '' @ [CHR 0x27] @ ''bogus'' @ [CHR 0x27] @ '' does not exist.''))"
proof -
  have a: "fst (addIntercept ''u1'' ex_interception ex_accept ex_registry) = Inr ''u1''"
    by (simp add: addIntercept_def split_beta toggleInterception_accepted ex_accept_def)
  have b: "list_all (\<lambda>op. \<not> mentions ''u1'' op) []" by simp
  have c: "list_all (\<lambda>op. \<not> generates ''u1'' op) [(ex_accept, AddIntercept ''u2'' ex_interception)]"
    by simp
  have d: "intercepts ex_registry = []"
    by (simp add: ex_registry_def empty_storage_def)
  have e: "list_all (\<lambda>op. \<not> generates ''bogus'' op) [(ex_accept, AddIntercept ''u2'' ex_interception)]"
    by simp
  from removeIntercept_once[OF a b c d e, of ex_accept ex_accept ex_accept] a
  show ?thesis
    by (simp add: run_intercept_ops_def addIntercept_def removeIntercept_def
        toggleInterception_def promise_all_def in_settle_order_def ex_accept_def ex_registry_def
        ex_interception_def ex_target_def empty_storage_def no_stages_def or_phases_def
        fetch_patterns_def Let_def)
qed

text \<open>
  C2 as stated does not hold. The intercept u1 is added and its id returned; the first
  \<^verbatim>\<open>removeIntercept\<close> runs while the target rejects the synchronisation: it rejects
  with the CDP error, yet the entry is gone, and the next \<^verbatim>\<open>removeIntercept\<close> throws
  \<^verbatim>\<open>NoSuchInterceptException\<close>, so the removal has succeeded not once. And an
  \<^verbatim>\<open>addIntercept\<close> that the target rejects returns no id but leaves its entry u3 in
  the registry: \<^verbatim>\<open>removeIntercept\<close> with that id, which was never returned, returns
  normally.
\<close>

theorem removeIntercept_counterexample:
  "fst (addIntercept ''u1'' ex_interception ex_accept ex_registry) = Inr ''u1''
   \<and> fst (removeIntercept ''u1'' ex_reject
        (fst (snd (addIntercept ''u1'' ex_interception ex_accept ex_registry)))) =
      Inl (CdpException ex_close_error)
   \<and> fst (removeIntercept ''u1'' ex_accept
        (fst (snd (removeIntercept ''u1'' ex_reject
          (fst (snd (addIntercept ''u1'' ex_interception ex_accept ex_registry))))))) =
      Inl (NoSuchInterceptException
        (''Intercept '' @ [CHR 0x27] @ ''u1'' @ [CHR 0x27] @ '' does not exist.''))
   \<and> fst (addIntercept ''u3'' ex_interception ex_reject ex_registry) =
      Inl (CdpException ex_close_error)
   \<and> fst (removeIntercept ''u3'' ex_accept
        (fst (snd (addIntercept ''u3'' ex_interception ex_reject ex_registry)))) = Inr ()"
  by (simp add: addIntercept_def removeIntercept_def toggleInterception_def promise_all_def
      in_settle_order_def ex_accept_def ex_reject_def ex_registry_def ex_interception_def
      ex_target_def empty_storage_def no_stages_def or_phases_def fetch_patterns_def Let_def
      ex_close_error_def no_such_intercept_def)

section \<open>Properties of BrowsingContextProcessor\<close>

subsection \<open>browsingContext.setViewport\<close>

text \<open>
  C9. For a browsing context that is not top-level, \<^verbatim>\<open>browsingContext.setViewport\<close>
  throws \<^verbatim>\<open>InvalidArgumentException\<close> (invalid argument), and no CDP command is sent:
  \<^verbatim>\<open>context.setViewport\<close> is not reached.
\<close>

theorem setViewport_rejects_child:
  assumes "findContext contexts i = Some c" and "\<not> isTopLevelContext c"
  shows "setViewport context_setViewport contexts i =
           (Inl (InvalidArgumentException
              ''Emulating viewport is only supported on the top-level context''), [])"
  using assms by (simp add: setViewport_def getContext_def)

text \<open>
  The frame F1 is a child of T1; whatever \<^verbatim>\<open>context.setViewport\<close> would send, the
  command fails before it.
\<close>

theorem setViewport_rejects_child_witness:
  "findContext [(''F1'', ex_child)] ''F1'' = Some ex_child \<and> \<not> isTopLevelContext ex_child
   \<and> setViewport (\<lambda>c. (Inr (), [(cdpTarget c, ''Emulation.setDeviceMetricsOverride'')]))
        [(''F1'', ex_child)] ''F1'' =
      (Inl (InvalidArgumentException
         ''Emulating viewport is only supported on the top-level context''), [])"
proof -
  have a: "findContext [(''F1'', ex_child)] ''F1'' = Some ex_child"
    by (simp add: findContext_def)
  have b: "\<not> isTopLevelContext ex_child"
    by (simp add: isTopLevelContext_def ex_child_def)
  from setViewport_rejects_child[OF a b] a b show ?thesis by simp
qed

subsection \<open>Target.attachedToTarget for a page or an iframe\<close>

text \<open>
  C7, as the code has it. For a \<^verbatim>\<open>Target.attachedToTarget\<close> event of type page or
  iframe whose target id is not the mapper's own: when a context with the target id
  exists, its \<^verbatim>\<open>CdpTarget\<close> is replaced by the new one and nothing else changes (the
  same context ids in the same order, no context created or destroyed); otherwise one
  context is added, top-level, under the target id, and its user context is
  \<^verbatim>\<open>targetInfo.browserContextId\<close>, except that it is \<^verbatim>\<open>default\<close> when
  \<^verbatim>\<open>browserContextId\<close> is absent, is the empty string, or equals the default
  user-context id. In both cases one \<^verbatim>\<open>CdpTarget\<close> is created.
\<close>

theorem handleAttachedToTargetEvent_page:
  fixes session :: string
  assumes "target_type ti = ''page'' \<or> target_type ti = ''iframe''"
    and "targetId ti \<noteq> selfTargetId p"
  defines "target \<equiv> \<lparr>target_id = targetId ti, cdpSessionId = Some session\<rparr>"
  shows "(\<forall>c. findContext contexts (targetId ti) = Some c \<longrightarrow>
            handleAttachedToTargetEvent p parentRealm session ti contexts =
              (AList.update (targetId ti) (c\<lparr>cdpTarget := target\<rparr>) contexts,
               [CreateCdpTarget target])
            \<and> map fst (fst (handleAttachedToTargetEvent p parentRealm session ti contexts)) =
                map fst contexts)
       \<and> (findContext contexts (targetId ti) = None \<longrightarrow>
            handleAttachedToTargetEvent p parentRealm session ti contexts =
              (contexts @
                 [(targetId ti,
                   \<lparr>ctx_id = targetId ti, parentId = None,
                    userContext =
                      (case browserContextId ti of
                         None \<Rightarrow> ''default''
                       | Some b \<Rightarrow>
                           if b = '''' \<or> b = defaultUserContextId p then ''default'' else b),
                    cdpTarget = target\<rparr>)],
               [CreateCdpTarget target]))"
proof (intro conjI allI impI)
  fix c assume c: "findContext contexts (targetId ti) = Some c"
  with assms show "handleAttachedToTargetEvent p parentRealm session ti contexts =
              (AList.update (targetId ti) (c\<lparr>cdpTarget := target\<rparr>) contexts,
               [CreateCdpTarget target])"
    by (auto simp: handleAttachedToTargetEvent_def updateCdpTarget_def Let_def)
  with c show "map fst (fst (handleAttachedToTargetEvent p parentRealm session ti contexts)) =
                map fst contexts"
    by (simp add: findContext_def update_keys_present)
next
  assume n: "findContext contexts (targetId ti) = None"
  then have "targetId ti \<notin> fst ` set contexts"
    by (simp add: findContext_def map_of_eq_None_iff)
  with n assms show "handleAttachedToTargetEvent p parentRealm session ti contexts =
              (contexts @
                 [(targetId ti,
                   \<lparr>ctx_id = targetId ti, parentId = None,
                    userContext =
                      (case browserContextId ti of
                         None \<Rightarrow> ''default''
                       | Some b \<Rightarrow>
                           if b = '''' \<or> b = defaultUserContextId p then ''default'' else b),
                    cdpTarget = target\<rparr>)],
               [CreateCdpTarget target])"
    by (auto simp: handleAttachedToTargetEvent_def BrowsingContextImpl_create_def
        userContext_of_def update_fresh Let_def split: option.splits)
qed

text \<open>
  The page T1 of the browser context U1 attaches on session S1 and becomes a top-level
  context of the user context U1; when it attaches again on session S2, as after a
  swap of the renderer, the context stays and its target is the one of S2.
\<close>

theorem handleAttachedToTargetEvent_page_witness:
  "handleAttachedToTargetEvent ex_processor None ''S1'' (ex_page (Some ''U1'')) [] =
     ([(''T1'', \<lparr>ctx_id = ''T1'', parentId = None, userContext = ''U1'', cdpTarget = ex_target\<rparr>)],
      [CreateCdpTarget ex_target])
   \<and> handleAttachedToTargetEvent ex_processor None ''S2'' (ex_page (Some ''U1''))
       [(''T1'', \<lparr>ctx_id = ''T1'', parentId = None, userContext = ''U1'', cdpTarget = ex_target\<rparr>)] =
     ([(''T1'', \<lparr>ctx_id = ''T1'', parentId = None, userContext = ''U1'',
                cdpTarget = \<lparr>target_id = ''T1'', cdpSessionId = Some ''S2''\<rparr>\<rparr>)],
      [CreateCdpTarget \<lparr>target_id = ''T1'', cdpSessionId = Some ''S2''\<rparr>])"
proof -
  have a: "target_type (ex_page (Some ''U1'')) = ''page'' \<or>
           target_type (ex_page (Some ''U1'')) = ''iframe''"
    by (simp add: ex_page_def)
  have b: "targetId (ex_page (Some ''U1'')) \<noteq> selfTargetId ex_processor"
    by (simp add: ex_page_def ex_processor_def)
  from handleAttachedToTargetEvent_page[OF a b, of "[]" None "''S1''"]
    handleAttachedToTargetEvent_page[OF a b,
      of "[(''T1'', \<lparr>ctx_id = ''T1'', parentId = None, userContext = ''U1'', cdpTarget = ex_target\<rparr>)]"
         None "''S2''"]
  show ?thesis
    by (simp add: findContext_def ex_page_def ex_processor_def ex_target_def)
qed

text \<open>
  C7 as stated does not hold: a page whose \<^verbatim>\<open>browserContextId\<close> is the empty string,
  which is neither absent nor the default user-context id D0, gets the user context
  \<^verbatim>\<open>default\<close> and not its \<^verbatim>\<open>browserContextId\<close>.
\<close>

theorem handleAttachedToTargetEvent_userContext_counterexample:
  "browserContextId (ex_page (Some '''')) = Some ''''
   \<and> '''' \<noteq> defaultUserContextId ex_processor
   \<and> targetId (ex_page (Some '''')) \<noteq> selfTargetId ex_processor
   \<and> map (\<lambda>(k, c). userContext c)
        (fst (handleAttachedToTargetEvent ex_processor None ''S1'' (ex_page (Some '''')) [])) =
      [''default'']"
  by (simp add: handleAttachedToTargetEvent_def BrowsingContextImpl_create_def
      userContext_of_def findContext_def ex_page_def ex_processor_def Let_def)

section \<open>Properties of CdpTarget\<close>

subsection \<open>Fetch stages and a failing Fetch.enable\<close>

text \<open>
  \<^verbatim>\<open>#enableFetch\<close> of modules/cdp/CdpTarget.ts records the new stages only when
  \<^verbatim>\<open>Fetch.enable\<close> was sent and returned; otherwise the stages are the previous ones.
\<close>

lemma enableFetch_restores:
  "fetchDomainStages (fst (enableFetch env st t)) =
     (if networkDomainEnabled t \<and> fetch_patterns st \<noteq> [] \<and>
         env (FetchEnable (fetch_patterns st) (auth st)) = None
      then st else fetchDomainStages t)"
  by (simp add: enableFetch_def Let_def split: option.splits)

text \<open>
  \<^verbatim>\<open>toggleFetchIfNeeded\<close> of part_001 records the new stages and keeps them when
  \<^verbatim>\<open>Fetch.enable\<close> throws.
\<close>

lemma toggleFetchIfNeeded_failure:
  assumes "networkDomainEnabled t"
    and "request (fetchDomainStages t) \<noteq> request st \<or>
         response (fetchDomainStages t) \<noteq> response st \<or>
         auth (fetchDomainStages t) \<noteq> auth st"
    and "fetch_patterns st \<noteq> []"
    and "env (FetchEnable (fetch_patterns st) (auth st)) = Some e"
  shows "toggleFetchIfNeeded env st t =
           (Some e, t\<lparr>fetchDomainStages := st\<rparr>,
            [Sent (FetchEnable (fetch_patterns st) (auth st))])"
  using assms by (auto simp: toggleFetchIfNeeded_def Let_def)

text \<open>
  C3 fails on the \<^verbatim>\<open>CdpTarget\<close> of part_001. With the network domain enabled and no
  stage recorded, \<^verbatim>\<open>toggleFetchIfNeeded\<close> for the request stage records the stage,
  sends \<^verbatim>\<open>Fetch.enable\<close>, and when the command throws the promise rejects with the
  stage still recorded. Through \<^verbatim>\<open>toggleNetworkIfNeeded\<close> on a fresh target the catch
  block puts \<^verbatim>\<open>#networkDomainEnabled\<close> back and leaves the stage recorded as well.
\<close>

theorem toggleFetchIfNeeded_keeps_failed_stages:
  "toggleFetchIfNeeded ex_fetch_fails ex_request_stage
     (ex_cdp_target\<lparr>networkDomainEnabled := True\<rparr>) =
     (Some ex_close_error,
      \<lparr>networkDomainEnabled = True, fetchDomainStages = ex_request_stage,
       acceptInsecureCerts = False\<rparr>,
      [Sent (FetchEnable [(''*'', Request)] False)])
   \<and> toggleNetworkIfNeeded ex_fetch_fails True ex_request_stage ex_cdp_target =
     (\<lparr>networkDomainEnabled = False, fetchDomainStages = ex_request_stage,
       acceptInsecureCerts = False\<rparr>,
      [Sent NetworkEnable, Sent (FetchEnable [(''*'', Request)] False)])
   \<and> fetchDomainStages ex_cdp_target = no_stages \<and> ex_request_stage \<noteq> no_stages"
  by (simp add: toggleFetchIfNeeded_def toggleNetworkIfNeeded_def ex_fetch_fails_def
      ex_request_stage_def ex_cdp_target_def no_stages_def fetch_patterns_def Let_def)

text \<open>
  The command failed, and the stages recorded after the call differ from those recorded
  before it.
\<close>

theorem toggleFetchIfNeeded_keeps_failed_stages_witness:
  "fst (toggleFetchIfNeeded ex_fetch_fails ex_request_stage
          (ex_cdp_target\<lparr>networkDomainEnabled := True\<rparr>)) = Some ex_close_error
   \<and> fetchDomainStages (fst (snd (toggleFetchIfNeeded ex_fetch_fails ex_request_stage
          (ex_cdp_target\<lparr>networkDomainEnabled := True\<rparr>)))) \<noteq>
       fetchDomainStages (ex_cdp_target\<lparr>networkDomainEnabled := True\<rparr>)"
  using toggleFetchIfNeeded_keeps_failed_stages
  by (simp add: ex_cdp_target_def ex_request_stage_def no_stages_def)

subsection \<open>The unblock sequence\<close>

lemma unblock_catch_once:
  "fst (unblock_catch isCloseError r) @
     (if snd (unblock_catch isCloseError r) then [] else [Resolved Success]) =
   [Resolved (case r of None \<Rightarrow> Success
              | Some e \<Rightarrow> if isCloseError e then Success else Error e)]"
  by (simp add: unblock_catch_def split: option.splits)

lemma unblock_shape:
  "unblock isCloseError env t =
     map Started (unblock_steps t) @
     map (\<lambda>(st, out). Settled st out)
       (fst (settled_until_rejection (in_settle_order env (unblock_steps t)))) @
     [Resolved (case promise_all env (unblock_steps t) of
                  None \<Rightarrow> Success
                | Some e \<Rightarrow> if isCloseError e then Success else Error e)]"
  by (simp add: unblock_def Let_def split_beta promise_all_def unblock_catch_once
      del: append_assoc)

lemma Settled_no_Started: "list_all (\<lambda>ev. \<not> is_Started ev) (map (\<lambda>(st, out). Settled st out) ps)"
  by (induction ps) (simp_all add: split_beta)

lemma Settled_no_Resolved: "list_all (\<lambda>ev. \<not> is_Resolved ev) (map (\<lambda>(st, out). Settled st out) ps)"
  by (induction ps) (simp_all add: split_beta)

text \<open>
  C1, as the code has it. \<^verbatim>\<open>Runtime.runIfWaitingForDebugger\<close> is the last element of
  the one batch: it is issued after \<^verbatim>\<open>Runtime.enable\<close>, \<^verbatim>\<open>Page.enable\<close>,
  \<^verbatim>\<open>Page.setLifecycleEventsEnabled\<close>, \<^verbatim>\<open>Security.setIgnoreCertificateErrors\<close> and
  \<^verbatim>\<open>Target.setAutoAttach\<close> have been issued and the network toggling and the
  installation of the preload scripts have been started, and before any of them has
  settled: all seven are pending when it is issued. No step starts after it, and the
  deferred is resolved only after it, at the end.
\<close>

theorem runIfWaitingForDebugger_issued_last:
  "(\<exists>evs r. unblock isCloseError env t =
      map Started
        [Command RuntimeEnable, Command PageEnable, Command (PageSetLifecycleEventsEnabled True),
         Command (SecuritySetIgnoreCertificateErrors (acceptInsecureCerts t)), ToggleNetwork,
         Command (TargetSetAutoAttach True True True), InitAndEvaluatePreloadScripts] @
      [Started (Command RuntimeRunIfWaitingForDebugger)] @ evs @ [Resolved r]
    \<and> list_all (\<lambda>ev. \<not> is_Started ev) evs \<and> list_all (\<lambda>ev. \<not> is_Resolved ev) evs)
   \<and> pending_when (Started (Command RuntimeRunIfWaitingForDebugger))
        (unblock isCloseError env t) [] =
      [Command RuntimeEnable, Command PageEnable, Command (PageSetLifecycleEventsEnabled True),
       Command (SecuritySetIgnoreCertificateErrors (acceptInsecureCerts t)), ToggleNetwork,
       Command (TargetSetAutoAttach True True True), InitAndEvaluatePreloadScripts]"
proof
  show "\<exists>evs r. unblock isCloseError env t =
      map Started
        [Command RuntimeEnable, Command PageEnable, Command (PageSetLifecycleEventsEnabled True),
         Command (SecuritySetIgnoreCertificateErrors (acceptInsecureCerts t)), ToggleNetwork,
         Command (TargetSetAutoAttach True True True), InitAndEvaluatePreloadScripts] @
      [Started (Command RuntimeRunIfWaitingForDebugger)] @ evs @ [Resolved r]
    \<and> list_all (\<lambda>ev. \<not> is_Started ev) evs \<and> list_all (\<lambda>ev. \<not> is_Resolved ev) evs"
    by (simp add: unblock_shape unblock_steps_def Settled_no_Started Settled_no_Resolved)
next
  let ?sts = "[Command RuntimeEnable, Command PageEnable, Command (PageSetLifecycleEventsEnabled True),
       Command (SecuritySetIgnoreCertificateErrors (acceptInsecureCerts t)), ToggleNetwork,
       Command (TargetSetAutoAttach True True True), InitAndEvaluatePreloadScripts]"
  have "\<exists>rest. unblock isCloseError env t =
      map Started ?sts @ Started (Command RuntimeRunIfWaitingForDebugger) # rest"
    by (simp add: unblock_shape unblock_steps_def)
  then obtain rest where "unblock isCloseError env t =
      map Started ?sts @ Started (Command RuntimeRunIfWaitingForDebugger) # rest" ..
  moreover have "Started (Command RuntimeRunIfWaitingForDebugger) \<notin> set (map Started ?sts)"
    by simp
  ultimately show "pending_when (Started (Command RuntimeRunIfWaitingForDebugger))
      (unblock isCloseError env t) [] = ?sts"
    by simp
qed

text \<open>
  Whatever the outcomes, the first eight events are the starts of the eight elements,
  the last of them \<^verbatim>\<open>Runtime.runIfWaitingForDebugger\<close>.
\<close>

theorem runIfWaitingForDebugger_issued_last_witness:
  "take 8 (unblock ex_isCloseError ex_mixed ex_cdp_target) =
     map Started (unblock_steps ex_cdp_target)
   \<and> last (unblock_steps ex_cdp_target) = Command RuntimeRunIfWaitingForDebugger"
  using runIfWaitingForDebugger_issued_last[of ex_isCloseError ex_mixed ex_cdp_target]
  by (auto simp: unblock_steps_def ex_cdp_target_def)

text \<open>
  C1 as stated does not hold: when every command succeeds, all seven other steps have
  started and none has settled at the moment \<^verbatim>\<open>Runtime.runIfWaitingForDebugger\<close> is
  issued.
\<close>

theorem runIfWaitingForDebugger_counterexample:
  "\<not> issued_after_prerequisites (unblock ex_isCloseError ex_all_fulfil ex_cdp_target)
   \<and> pending_when (Started (Command RuntimeRunIfWaitingForDebugger))
        (unblock ex_isCloseError ex_all_fulfil ex_cdp_target) [] =
      [Command RuntimeEnable, Command PageEnable, Command (PageSetLifecycleEventsEnabled True),
       Command (SecuritySetIgnoreCertificateErrors False), ToggleNetwork,
       Command (TargetSetAutoAttach True True True), InitAndEvaluatePreloadScripts]"
  by (simp add: issued_after_prerequisites_def unblock_def unblock_steps_def ex_all_fulfil_def
      ex_cdp_target_def in_settle_order_def unblock_catch_def)

lemma resolutions_append: "resolutions (xs @ ys) = resolutions xs @ resolutions ys"
  by (induction xs rule: resolutions.induct) simp_all

lemma resolutions_Started: "resolutions (map Started sts) = []"
  by (induction sts) simp_all

lemma resolutions_Settled: "resolutions (map (\<lambda>(st, out). Settled st out) ps) = []"
  by (induction ps) (simp_all add: split_beta)

lemma resolutions_unblock:
  "resolutions (unblock isCloseError env t) =
     [case promise_all env (unblock_steps t) of
        None \<Rightarrow> Success
      | Some e \<Rightarrow> if isCloseError e then Success else Error e]"
  by (simp add: unblock_shape resolutions_append resolutions_Started resolutions_Settled)

text \<open>
  C8, as the code has it. \<^verbatim>\<open>#unblock\<close> resolves the deferred exactly once. When
  every step succeeds it resolves as success. When a step fails, the failure that
  settles first decides, because \<^verbatim>\<open>Promise.all\<close> rejects with it: the deferred
  resolves as success when the CDP client classifies that error as a close error, and
  as error, with that error, otherwise. In particular it resolves as success when every
  failure is a close error, and as error when no failure is one.
\<close>

theorem unblock_resolves_once:
  fixes env :: unblock_env
  shows "(\<exists>r. resolutions (unblock isCloseError env t) = [r])
       \<and> ((\<forall>st \<in> set (unblock_steps t). snd (env st) = None) \<longrightarrow>
            resolutions (unblock isCloseError env t) = [Success])
       \<and> ((\<exists>st \<in> set (unblock_steps t). snd (env st) \<noteq> None) \<longrightarrow>
            (\<exists>st \<in> set (unblock_steps t). \<exists>e. snd (env st) = Some e \<and>
               (\<forall>st' \<in> set (unblock_steps t). snd (env st') \<noteq> None \<longrightarrow>
                  fst (env st) \<le> fst (env st')) \<and>
               resolutions (unblock isCloseError env t) =
                 [if isCloseError e then Success else Error e]))
       \<and> ((\<forall>st \<in> set (unblock_steps t). \<forall>e. snd (env st) = Some e \<longrightarrow> isCloseError e) \<longrightarrow>
            resolutions (unblock isCloseError env t) = [Success])
       \<and> ((\<exists>st \<in> set (unblock_steps t). snd (env st) \<noteq> None) \<and>
           (\<forall>st \<in> set (unblock_steps t). \<forall>e. snd (env st) = Some e \<longrightarrow> \<not> isCloseError e) \<longrightarrow>
            (\<exists>st \<in> set (unblock_steps t). \<exists>e. snd (env st) = Some e \<and>
               resolutions (unblock isCloseError env t) = [Error e]))"
proof -
  let ?r = "promise_all env (unblock_steps t)"
  have once: "\<exists>r. resolutions (unblock isCloseError env t) = [r]"
    by (simp add: resolutions_unblock)
  have fulfilled: "resolutions (unblock isCloseError env t) = [Success]"
    if "\<forall>st \<in> set (unblock_steps t). snd (env st) = None"
  proof -
    from that have "?r = None" by (simp only: promise_all_None)
    then show ?thesis by (simp add: resolutions_unblock)
  qed
  have rejected: "\<exists>st \<in> set (unblock_steps t). \<exists>e. snd (env st) = Some e \<and>
               (\<forall>st' \<in> set (unblock_steps t). snd (env st') \<noteq> None \<longrightarrow>
                  fst (env st) \<le> fst (env st')) \<and>
               resolutions (unblock isCloseError env t) =
                 [if isCloseError e then Success else Error e]"
    if "\<exists>st \<in> set (unblock_steps t). snd (env st) \<noteq> None"
  proof -
    from that have "?r \<noteq> None" unfolding promise_all_None by auto
    then obtain e where e: "?r = Some e" by blast
    from promise_all_Some[OF e] obtain st where st: "st \<in> set (unblock_steps t)"
      "snd (env st) = Some e"
      "\<forall>st' \<in> set (unblock_steps t). snd (env st') \<noteq> None \<longrightarrow> fst (env st) \<le> fst (env st')"
      by blast
    have "resolutions (unblock isCloseError env t) =
        [if isCloseError e then Success else Error e]"
      by (simp add: resolutions_unblock e)
    with st show ?thesis by blast
  qed
  have all_close: "resolutions (unblock isCloseError env t) = [Success]"
    if c: "\<forall>st \<in> set (unblock_steps t). \<forall>e. snd (env st) = Some e \<longrightarrow> isCloseError e"
  proof (cases "\<exists>st \<in> set (unblock_steps t). snd (env st) \<noteq> None")
    case True
    from rejected[OF True] c show ?thesis by auto
  next
    case False
    then show ?thesis using fulfilled by simp
  qed
  have none_close: "\<exists>st \<in> set (unblock_steps t). \<exists>e. snd (env st) = Some e \<and>
               resolutions (unblock isCloseError env t) = [Error e]"
    if "(\<exists>st \<in> set (unblock_steps t). snd (env st) \<noteq> None) \<and>
        (\<forall>st \<in> set (unblock_steps t). \<forall>e. snd (env st) = Some e \<longrightarrow> \<not> isCloseError e)"
  proof -
    from that rejected obtain st e where "st \<in> set (unblock_steps t)" "snd (env st) = Some e"
      "resolutions (unblock isCloseError env t) = [if isCloseError e then Success else Error e]"
      by blast
    moreover with that have "\<not> isCloseError e" by blast
    ultimately show ?thesis by auto
  qed
  from once fulfilled rejected all_close none_close show ?thesis by blast
qed

text \<open>
  With every command succeeding the deferred resolves once, as success; with
  \<^verbatim>\<open>Runtime.enable\<close> failing first with an error that is not a close error and
  \<^verbatim>\<open>Page.enable\<close> failing later with a close error, it resolves once, as error.
\<close>

theorem unblock_resolves_once_witness:
  "resolutions (unblock ex_isCloseError ex_all_fulfil ex_cdp_target) = [Success]
   \<and> resolutions (unblock ex_isCloseError ex_mixed ex_cdp_target) = [Error ex_other_error]"
  using unblock_resolves_once[of ex_isCloseError ex_all_fulfil ex_cdp_target]
    unblock_resolves_once[of ex_isCloseError ex_mixed ex_cdp_target]
  by (simp add: unblock_def unblock_steps_def ex_mixed_def ex_isCloseError_def ex_close_error_def
      ex_other_error_def ex_cdp_target_def ex_all_fulfil_def in_settle_order_def
      unblock_catch_def)

text \<open>
  C8 as stated does not hold: \<^verbatim>\<open>Page.enable\<close> fails with an error that the client
  classifies as a close error, and the deferred resolves as error, because
  \<^verbatim>\<open>Runtime.enable\<close> failed before it with another error.
\<close>

theorem unblock_close_error_counterexample:
  "snd (ex_mixed (Command PageEnable)) = Some ex_close_error \<and> ex_isCloseError ex_close_error
   \<and> Command PageEnable \<in> set (unblock_steps ex_cdp_target)
   \<and> resolutions (unblock ex_isCloseError ex_mixed ex_cdp_target) = [Error ex_other_error]"
  by (simp add: unblock_def unblock_steps_def ex_mixed_def ex_isCloseError_def ex_close_error_def
      ex_other_error_def ex_cdp_target_def in_settle_order_def unblock_catch_def)

end
